theory Spec2Isabelle
  imports Complex_Main "HOL-Library.Sublist"
begin

section \<open>Strings, searching and the regular expressions of the plugin\<close>

text \<open>
  The plugin \<^verbatim>\<open>src/vite-fix-naiveui-icon.ts\<close> works on JavaScript strings, which are
  sequences of UTF-16 code units indexed from 0. A \<^typ>\<open>string\<close> here is the list of the
  code units of such a string, each below 256; texts with larger code units are outside
  the model. Indices and lengths are those of JavaScript.
\<close>

text \<open>\<^verbatim>\<open>s.indexOf(sub)\<close>: the first index at which \<open>sub\<close> occurs, \<open>None\<close> for -1.\<close>

fun indexOf_from :: "string \<Rightarrow> string \<Rightarrow> nat \<Rightarrow> nat option" where
  "indexOf_from [] sub i = (if sub = [] then Some i else None)"
| "indexOf_from (c # cs) sub i =
     (if prefix sub (c # cs) then Some i else indexOf_from cs sub (Suc i))"

definition indexOf :: "string \<Rightarrow> string \<Rightarrow> nat option" where
  "indexOf s sub = indexOf_from s sub 0"

text \<open>\<^verbatim>\<open>s.includes(sub)\<close> and \<^verbatim>\<open>s.startsWith(sub)\<close>.\<close>

definition includes_js :: "string \<Rightarrow> string \<Rightarrow> bool" where
  "includes_js s sub = (indexOf s sub \<noteq> None)"

definition startsWith :: "string \<Rightarrow> string \<Rightarrow> bool" where
  "startsWith s sub = prefix sub s"

text \<open>\<^verbatim>\<open>s.slice(a, b)\<close> for indices that are not negative.\<close>

definition slice :: "string \<Rightarrow> nat \<Rightarrow> nat \<Rightarrow> string" where
  "slice s a b = take (b - a) (drop a s)"

text \<open>
  The regular expressions of the file are sequences of literals, single character
  classes, greedy repetitions of a character class and the end anchor. An atom, tried
  at the front of a text, offers the texts that may remain after it, in the order in
  which a backtracking matcher tries them (a greedy repetition takes the longest run
  first).
\<close>

datatype atom =
    Lit string
  | Cls "char \<Rightarrow> bool"
  | Star "char \<Rightarrow> bool"
  | Plus "char \<Rightarrow> bool"
  | Eos

fun atom_rests :: "atom \<Rightarrow> string \<Rightarrow> string list" where
  "atom_rests (Lit l) s = (if prefix l s then [drop (length l) s] else [])"
| "atom_rests (Cls P) s = (case s of [] \<Rightarrow> [] | c # cs \<Rightarrow> if P c then [cs] else [])"
| "atom_rests (Star P) s = map (\<lambda>k. drop k s) (rev [0 ..< Suc (length (takeWhile P s))])"
| "atom_rests (Plus P) s = map (\<lambda>k. drop k s) (rev [1 ..< Suc (length (takeWhile P s))])"
| "atom_rests Eos s = (if s = [] then [s] else [])"

fun first_some :: "'a option list \<Rightarrow> 'a option" where
  "first_some [] = None"
| "first_some (None # xs) = first_some xs"
| "first_some (Some x # xs) = Some x"

text \<open>The text that remains after the first successful way to match the sequence.\<close>

primrec seq_match :: "atom list \<Rightarrow> string \<Rightarrow> string option" where
  "seq_match [] s = Some s"
| "seq_match (a # as) s = first_some (map (seq_match as) (atom_rests a s))"

text \<open>
  \<^verbatim>\<open>re.exec(s)\<close> for a regular expression without flags: the leftmost start at which
  the expression matches, as the pair of \<^verbatim>\<open>match.index\<close> and \<^verbatim>\<open>match[0].length\<close>.
\<close>

fun exec_from :: "atom list \<Rightarrow> string \<Rightarrow> nat \<Rightarrow> (nat \<times> nat) option" where
  "exec_from r [] i = (case seq_match r [] of None \<Rightarrow> None | Some rest \<Rightarrow> Some (i, 0))"
| "exec_from r (c # cs) i =
     (case seq_match r (c # cs) of
        None \<Rightarrow> exec_from r cs (Suc i)
      | Some rest \<Rightarrow> Some (i, length (c # cs) - length rest))"

definition regex_exec :: "atom list \<Rightarrow> string \<Rightarrow> (nat \<times> nat) option" where
  "regex_exec r s = exec_from r s 0"

definition regex_test :: "atom list \<Rightarrow> string \<Rightarrow> bool" where
  "regex_test r s = (regex_exec r s \<noteq> None)"

text \<open>
  The class \<^verbatim>\<open>\s\<close> among the code units below 256: tab, line feed, vertical tab, form feed,
  carriage return, space and the no-break space.
\<close>

definition is_space :: "char \<Rightarrow> bool" where
  "is_space c = (c = CHR 0x09 \<or> c = CHR 0x0A \<or> c = CHR 0x0B \<or> c = CHR 0x0C
      \<or> c = CHR 0x0D \<or> c = CHR 0x20 \<or> c = CHR 0xA0)"

definition not_comma :: "char \<Rightarrow> bool" where
  "not_comma c = (c \<noteq> CHR '','')"

text \<open>\<^verbatim>\<open>/function replaceable\s*\(([^,]+),\s*icon\)\s*\{/\<close>\<close>

definition replaceable_re :: "atom list" where
  "replaceable_re =
     [Lit ''function replaceable'', Star is_space, Lit ''('', Plus not_comma, Lit '','',
      Star is_space, Lit ''icon)'', Star is_space, Lit ''{'']"

text \<open>\<^verbatim>\<open>/setup\s*\(\)\s*\{/\<close>\<close>

definition setup_re :: "atom list" where
  "setup_re = [Lit ''setup'', Star is_space, Lit ''()'', Star is_space, Lit ''{'']"

section \<open>The brace scan\<close>

text \<open>
  Lines 144 to 154: the loop over \<^verbatim>\<open>braceCount\<close> and \<^verbatim>\<open>funcEndIdx\<close>, as the pair of
  both variables when the loop ends.
\<close>

function brace_scan :: "string \<Rightarrow> int \<Rightarrow> nat \<Rightarrow> int \<times> nat" where
  "brace_scan code braceCount funcEndIdx =
     (if braceCount > 0 \<and> funcEndIdx < length code then
        let char = code ! funcEndIdx;
            braceCount1 = (if char = CHR ''{'' then braceCount + 1 else braceCount);
            braceCount2 = (if char = CHR ''}'' then braceCount1 - 1 else braceCount1)
        in brace_scan code braceCount2 (funcEndIdx + 1)
      else (braceCount, funcEndIdx))"
  by pat_completeness auto
termination
  by (relation "measure (\<lambda>(code, braceCount, funcEndIdx). length code - funcEndIdx)") auto


declare brace_scan.simps [simp del]

section \<open>The text editor of the transforms\<close>

text \<open>
  The transforms edit a text through the library magic-string, which is not part of the
  repository. A \<^verbatim>\<open>MagicString\<close> keeps the original text as a sequence of chunks; a
  chunk covers the original positions from \<open>chunk_start\<close> up to \<open>chunk_end\<close> and
  carries its current content and the texts attached before and after it. The operations
  below are the four the plugin calls. The position map that \<^verbatim>\<open>generateMap\<close> builds is
  not represented: a transform's result is its \<^verbatim>\<open>code\<close>.
\<close>

datatype error = TypeError | MagicStringError | FsError

record chunk =
  chunk_start :: nat
  chunk_end :: nat
  chunk_intro :: string
  chunk_content :: string
  chunk_outro :: string
  chunk_edited :: bool

record magic =
  original :: string
  ms_intro :: string
  ms_outro :: string
  chunks :: "chunk list"

text \<open>\<^verbatim>\<open>new MagicString(code)\<close>: one chunk over the whole text.\<close>

definition new_MagicString :: "string \<Rightarrow> magic" where
  "new_MagicString code =
     \<lparr>original = code, ms_intro = [], ms_outro = [],
      chunks = [\<lparr>chunk_start = 0, chunk_end = length code, chunk_intro = [],
                 chunk_content = code, chunk_outro = [], chunk_edited = False\<rparr>]\<rparr>"

text \<open>
  Splitting at an index cuts the chunk that holds the index strictly inside; the text
  attached after the chunk stays at its end. The library refuses to cut a chunk that
  an overwrite has edited. (It does cut an edited chunk whose content is empty; no
  operation of the plugin leaves such a chunk, and the model refuses that cut too.)
\<close>

fun split_chunks :: "nat \<Rightarrow> chunk list \<Rightarrow> error + chunk list" where
  "split_chunks index [] = Inr []"
| "split_chunks index (c # cs) =
     (if chunk_start c < index \<and> index < chunk_end c then
        (if chunk_edited c then Inl MagicStringError
         else Inr (c\<lparr>chunk_end := index,
                     chunk_content := take (index - chunk_start c) (chunk_content c),
                     chunk_outro := []\<rparr>
                 # \<lparr>chunk_start = index, chunk_end = chunk_end c, chunk_intro = [],
                     chunk_content = drop (index - chunk_start c) (chunk_content c),
                     chunk_outro = chunk_outro c, chunk_edited = False\<rparr>
                 # cs))
      else (case split_chunks index cs of Inl e \<Rightarrow> Inl e | Inr cs' \<Rightarrow> Inr (c # cs')))"

text \<open>
  \<^verbatim>\<open>overwrite(start, end, content)\<close>: the chunks between the two cuts are edited; the
  first takes the new content, the others become empty, and what was attached to them
  is dropped.
\<close>

definition edit_chunk :: "nat \<Rightarrow> nat \<Rightarrow> string \<Rightarrow> chunk \<Rightarrow> chunk" where
  "edit_chunk start end' content' c =
     (if start \<le> chunk_start c \<and> chunk_end c \<le> end' then
        c\<lparr>chunk_intro := [],
          chunk_content := (if chunk_start c = start then content' else []),
          chunk_outro := [], chunk_edited := True\<rparr>
      else c)"

definition overwrite :: "magic \<Rightarrow> nat \<Rightarrow> nat \<Rightarrow> string \<Rightarrow> error + magic" where
  "overwrite ms start end' content' =
     (if end' > length (original ms) then Inl MagicStringError
      else if start = end' then Inl MagicStringError
      else case split_chunks start (chunks ms) of
        Inl e \<Rightarrow> Inl e
      | Inr cs1 \<Rightarrow>
         (case split_chunks end' cs1 of
            Inl e \<Rightarrow> Inl e
          | Inr cs2 \<Rightarrow> Inr (ms\<lparr>chunks := map (edit_chunk start end' content') cs2\<rparr>)))"

text \<open>
  \<^verbatim>\<open>replace(searchValue, replacement)\<close> with two strings: the first occurrence of
  \<open>searchValue\<close> in the original text is overwritten.
\<close>

definition replace_ms :: "magic \<Rightarrow> string \<Rightarrow> string \<Rightarrow> error + magic" where
  "replace_ms ms searchValue replacement =
     (case indexOf (original ms) searchValue of
        None \<Rightarrow> Inr ms
      | Some index \<Rightarrow>
          if searchValue \<noteq> replacement
          then overwrite ms index (index + length searchValue) replacement
          else Inr ms)"

text \<open>
  \<^verbatim>\<open>appendLeft(index, content)\<close>: the content is attached after the chunk that ends at
  the index, and to the front matter of the whole text when no chunk ends there.
\<close>

fun append_outro :: "nat \<Rightarrow> string \<Rightarrow> chunk list \<Rightarrow> chunk list option" where
  "append_outro index content' [] = None"
| "append_outro index content' (c # cs) =
     (if chunk_end c = index then Some (c\<lparr>chunk_outro := chunk_outro c @ content'\<rparr> # cs)
      else map_option (Cons c) (append_outro index content' cs))"

definition appendLeft :: "magic \<Rightarrow> nat \<Rightarrow> string \<Rightarrow> error + magic" where
  "appendLeft ms index content' =
     (case split_chunks index (chunks ms) of
        Inl e \<Rightarrow> Inl e
      | Inr cs \<Rightarrow>
         (case append_outro index content' cs of
            Some cs' \<Rightarrow> Inr (ms\<lparr>chunks := cs'\<rparr>)
          | None \<Rightarrow> Inr (ms\<lparr>chunks := cs, ms_intro := ms_intro ms @ content'\<rparr>)))"

text \<open>\<^verbatim>\<open>prepend(content)\<close> and \<^verbatim>\<open>toString()\<close>.\<close>

definition prepend :: "magic \<Rightarrow> string \<Rightarrow> magic" where
  "prepend ms content' = ms\<lparr>ms_intro := content' @ ms_intro ms\<rparr>"

definition toString :: "magic \<Rightarrow> string" where
  "toString ms =
     ms_intro ms
     @ concat (map (\<lambda>c. chunk_intro c @ chunk_content c @ chunk_outro c) (chunks ms))
     @ ms_outro ms"


section \<open>The session and its filters\<close>

text \<open>
  The closure variables of \<^verbatim>\<open>ViteFixNaiveuiIcon\<close> (lines 62 to 65). A filter that has not
  been assigned yet is \<open>None\<close>; calling it raises a \<^verbatim>\<open>TypeError\<close>.
\<close>

record session =
  isBuild :: bool
  skipFix :: bool
  fixReplaceableFilter :: "(string \<Rightarrow> bool) option"
  fixExportDefaultFilter :: "(string \<Rightarrow> bool) option"

definition initial_session :: session where
  "initial_session =
     \<lparr>isBuild = False, skipFix = False, fixReplaceableFilter = None,
      fixExportDefaultFilter = None\<rparr>"

text \<open>
  \<^verbatim>\<open>createFilter(include)\<close> of the build tool, for a list of regular expressions and no
  exclusions: an identity with a NUL character is refused, backslashes are read as
  slashes, and the identity passes when one of the expressions matches it.
\<close>

definition normalizePath :: "string \<Rightarrow> string" where
  "normalizePath filename = map (\<lambda>c. if c = CHR 0x5C then CHR ''/'' else c) filename"

definition createFilter :: "atom list list \<Rightarrow> string \<Rightarrow> bool" where
  "createFilter incl ident =
     (if CHR 0x00 \<in> set ident then False
      else if list_ex (\<lambda>r. regex_test r (normalizePath ident)) incl then True
      else incl = [])"

text \<open>The hook \<^verbatim>\<open>config(_, { command })\<close>, lines 79 to 95.\<close>

definition config :: "session \<Rightarrow> string \<Rightarrow> session" where
  "config st command =
     (if command = ''build'' then
        st\<lparr>isBuild := True,
           fixReplaceableFilter :=
             Some (createFilter [[Lit ''/naive-ui/es/_internal/icons/replaceable'']]),
           fixExportDefaultFilter :=
             Some (createFilter
               [[Lit ''/naive-ui/es/checkbox/src/Checkbox.mjs''],
                [Lit ''/naive-ui/es/back-top/src/BackTop.mjs''],
                [Lit ''/naive-ui/es/rate/src/Rate.mjs''],
                [Lit ''/naive-ui/es/result/src/Result.mjs'']])\<rparr>
      else
        st\<lparr>isBuild := False,
           fixReplaceableFilter := Some (createFilter [[Lit ''/.vite/deps/naive-ui.js'']]),
           fixExportDefaultFilter := Some (createFilter [[Lit ''/.vite/deps/naive-ui.js'']])\<rparr>)"

section \<open>The three transforms\<close>

text \<open>
  A transform returns \<open>Inr None\<close> when it returns nothing (the text stays as it is),
  \<open>Inr (Some code)\<close> for a result with that code, and \<open>Inl e\<close> when it throws.
\<close>

definition import_line :: string where
  "import_line =
     ''import fixNaiveuiIconCloneVnode from '' @ [CHR 0x27]
     @ ''virtual:fixNaiveuiIcon-path:deepCloneVnode.js'' @ [CHR 0x27] @ '';'' @ [CHR 0x0A]"

text \<open>The transform of \<^verbatim>\<open>vite-fix-naiveui-icon:pre\<close>, lines 108 to 119.\<close>

definition pre_transform :: "session \<Rightarrow> string \<Rightarrow> string \<Rightarrow> error + string option" where
  "pre_transform st code ident =
     (if skipFix st then Inr None
      else (case fixReplaceableFilter st of
        None \<Rightarrow> Inl TypeError
      | Some f \<Rightarrow>
          if f ident then Inr (Some (toString (prepend (new_MagicString code) import_line)))
          else (case fixExportDefaultFilter st of
             None \<Rightarrow> Inl TypeError
           | Some g \<Rightarrow>
               if g ident
               then Inr (Some (toString (prepend (new_MagicString code) import_line)))
               else Inr None)))"

definition replaceable_literal :: string where
  "replaceable_literal = ''function replaceable(name, icon)''"

definition replaceable_renamed :: string where
  "replaceable_renamed = ''function replaceable(name, _icon_)''"

definition icon_binding :: string where
  "icon_binding = CHR 0x0A # ''  const icon = fixNaiveuiIconCloneVnode(_icon_);''"

text \<open>The transform of \<^verbatim>\<open>vite-fix-naiveui-icon-replaceable\<close>, lines 126 to 168.\<close>

definition replaceable_transform ::
  "session \<Rightarrow> string \<Rightarrow> string \<Rightarrow> error + string option" where
  "replaceable_transform st code ident =
     (if skipFix st then Inr None
      else (case fixReplaceableFilter st of
        None \<Rightarrow> Inl TypeError
      | Some f \<Rightarrow>
          if \<not> f ident then Inr None
          else (case replace_ms (new_MagicString code) replaceable_literal replaceable_renamed of
            Inl e \<Rightarrow> Inl e
          | Inr magicString \<Rightarrow>
             (case regex_exec replaceable_re code of
                None \<Rightarrow> Inr (Some (toString magicString))
              | Some (startIdx, fullLength) \<Rightarrow>
                  (let endIdx = startIdx + fullLength;
                       funcEndIdx = snd (brace_scan code 1 endIdx);
                       replaceableCode = slice code endIdx funcEndIdx
                   in (case regex_exec setup_re replaceableCode of
                         None \<Rightarrow> Inr (Some (toString magicString))
                       | Some (setupIndex, setupLength) \<Rightarrow>
                          (case appendLeft magicString (endIdx + setupIndex + setupLength)
                                  icon_binding of
                             Inl e \<Rightarrow> Inl e
                           | Inr magicString' \<Rightarrow> Inr (Some (toString magicString')))))))))"

text \<open>
  The recipes of \<^verbatim>\<open>./transformMap\<close> are not among the sources: they are parameters, each
  a function that edits the \<^verbatim>\<open>MagicString\<close> it is given or throws.
\<close>

record recipes =
  transformDev :: "magic \<Rightarrow> string \<Rightarrow> error + magic"
  tm_checkbox :: "magic \<Rightarrow> string \<Rightarrow> bool \<Rightarrow> error + magic"
  tm_backTop :: "magic \<Rightarrow> string \<Rightarrow> bool \<Rightarrow> error + magic"
  tm_rate :: "magic \<Rightarrow> string \<Rightarrow> bool \<Rightarrow> error + magic"
  tm_result :: "magic \<Rightarrow> error + magic"

datatype component = Checkbox | BackTop | Rate | Result

text \<open>The \<^verbatim>\<open>switch (true)\<close> of lines 185 to 198: the first case that holds is taken.\<close>

definition selected :: "string \<Rightarrow> component option" where
  "selected ident =
     (if includes_js ident ''checkbox'' then Some Checkbox
      else if includes_js ident ''back-top'' then Some BackTop
      else if includes_js ident ''rate'' then Some Rate
      else if includes_js ident ''result'' then Some Result
      else None)"

definition apply_recipe :: "recipes \<Rightarrow> component option \<Rightarrow> magic \<Rightarrow> string \<Rightarrow> error + magic" where
  "apply_recipe R sel magicString code =
     (case sel of
        Some Checkbox \<Rightarrow> tm_checkbox R magicString code True
      | Some BackTop \<Rightarrow> tm_backTop R magicString code True
      | Some Rate \<Rightarrow> tm_rate R magicString code True
      | Some Result \<Rightarrow> tm_result R magicString
      | None \<Rightarrow> Inr magicString)"

text \<open>The transform of \<^verbatim>\<open>vite-fix-naiveui-icon-export-default\<close>, lines 175 to 204.\<close>

definition export_default_transform ::
  "recipes \<Rightarrow> session \<Rightarrow> string \<Rightarrow> string \<Rightarrow> error + string option" where
  "export_default_transform R st code ident =
     (if skipFix st then Inr None
      else (case fixExportDefaultFilter st of
        None \<Rightarrow> Inl TypeError
      | Some g \<Rightarrow>
          if \<not> g ident then Inr None
          else (case (if \<not> isBuild st then transformDev R (new_MagicString code) code
                      else apply_recipe R (selected ident) (new_MagicString code) code) of
            Inl e \<Rightarrow> Inl e
          | Inr magicString \<Rightarrow> Inr (Some (toString magicString)))))"

text \<open>
  The build tool runs the stages in the order pre, replaceable, export-default; a stage
  that returns nothing hands its input on.
\<close>

definition run_stage :: "(string \<Rightarrow> error + string option) \<Rightarrow> error + string \<Rightarrow> error + string" where
  "run_stage stage input =
     (case input of
        Inl e \<Rightarrow> Inl e
      | Inr code \<Rightarrow>
         (case stage code of
            Inl e \<Rightarrow> Inl e
          | Inr None \<Rightarrow> Inr code
          | Inr (Some code') \<Rightarrow> Inr code'))"

definition pipeline :: "recipes \<Rightarrow> session \<Rightarrow> string \<Rightarrow> string \<Rightarrow> error + string" where
  "pipeline R st code ident =
     run_stage (\<lambda>c. export_default_transform R st c ident)
       (run_stage (\<lambda>c. replaceable_transform st c ident)
         (run_stage (\<lambda>c. pre_transform st c ident) (Inr code)))"


section \<open>The version gate\<close>

text \<open>
  A JavaScript number is a double: not a number, an infinity, or a finite value, here a
  rational (the two zeros are not told apart; no operation of the file tells them apart).
\<close>

datatype jsnum = NaN | Fin rat | PosInf | NegInf

fun js_less :: "jsnum \<Rightarrow> jsnum \<Rightarrow> bool" where
  "js_less (Fin a) (Fin b) = (a < b)"
| "js_less (Fin a) PosInf = True"
| "js_less NegInf (Fin b) = True"
| "js_less NegInf PosInf = True"
| "js_less a b = False"

text \<open>
  The double nearest to a natural number, ties to the even significand of 53 bits, and
  the infinity once the rounded value needs more than 1024 bits. (For a text of more
  than 20 significant digits the language standard also allows an engine to round a
  20-digit approximation of it; no statement below rests on such a text.)
\<close>

fun bit_length :: "nat \<Rightarrow> nat" where
  "bit_length n = (if n = 0 then 0 else Suc (bit_length (n div 2)))"

declare bit_length.simps [simp del]

definition nearest_double :: "nat \<Rightarrow> jsnum" where
  "nearest_double n =
     (let e = bit_length n - 53;
          q = n div 2 ^ e;
          r = n mod 2 ^ e;
          q' = (if 2 * r > 2 ^ e \<or> (2 * r = 2 ^ e \<and> odd q) then q + 1 else q)
      in if bit_length (q' * 2 ^ e) > 1024 then PosInf else Fin (of_nat (q' * 2 ^ e)))"

definition is_digit :: "char \<Rightarrow> bool" where
  "is_digit c = (48 \<le> (of_char c :: nat) \<and> (of_char c :: nat) \<le> 57)"

definition decimal :: "string \<Rightarrow> nat" where
  "decimal s = foldl (\<lambda>n c. 10 * n + (of_char c - 48)) 0 s"

text \<open>
  \<^verbatim>\<open>Number(s)\<close>: 0 for the empty string and the nearest double for a string of decimal
  digits. What \<^verbatim>\<open>Number\<close> returns for any other string (white space, signs, exponents,
  other radices, \<^verbatim>\<open>Infinity\<close>, and not a number for the rest) is the parameter \<open>other\<close>.
\<close>

definition Number_js :: "(string \<Rightarrow> jsnum) \<Rightarrow> string \<Rightarrow> jsnum" where
  "Number_js other s =
     (if s = [] then Fin 0
      else if list_all is_digit s then nearest_double (decimal s)
      else other s)"

text \<open>\<^verbatim>\<open>s.split(sep)\<close> for a separator of one character.\<close>

fun split_js :: "char \<Rightarrow> string \<Rightarrow> string list" where
  "split_js sep [] = [[]]"
| "split_js sep (c # cs) =
     (if c = sep then [] # split_js sep cs
      else case split_js sep cs of [] \<Rightarrow> [[c]] | x # xs \<Rightarrow> (c # x) # xs)"

text \<open>\<^verbatim>\<open>v[i] || 0\<close>: 0 when the index is out of range, or the entry is not a number or 0.\<close>

definition or_zero :: "jsnum list \<Rightarrow> nat \<Rightarrow> jsnum" where
  "or_zero v i =
     (if i < length v then (case v ! i of NaN \<Rightarrow> Fin 0 | n \<Rightarrow> n) else Fin 0)"

text \<open>The loop of \<^verbatim>\<open>compareVersion\<close>, lines 29 to 37, from index \<open>i\<close> on.\<close>

function compareVersion_loop :: "jsnum list \<Rightarrow> jsnum list \<Rightarrow> nat \<Rightarrow> bool" where
  "compareVersion_loop v1 v2 i =
     (if i < max (length v1) (length v2) then
        let n1 = or_zero v1 i; n2 = or_zero v2 i
        in if js_less n2 n1 then True
           else if js_less n1 n2 then False
           else compareVersion_loop v1 v2 (i + 1)
      else True)"
  by pat_completeness auto
termination
  by (relation "measure (\<lambda>(v1, v2, i). max (length v1) (length v2) - i)") auto

declare compareVersion_loop.simps [simp del]

definition compareVersion :: "(string \<Rightarrow> jsnum) \<Rightarrow> string \<Rightarrow> string \<Rightarrow> bool" where
  "compareVersion other version target =
     compareVersion_loop (map (Number_js other) (split_js CHR ''.'' version))
       (map (Number_js other) (split_js CHR ''.'' target)) 0"

definition FIXED_VERSION :: string where
  "FIXED_VERSION = ''2.40.4''"

text \<open>
  The values a manifest can give for \<^verbatim>\<open>pkg.version\<close>; \<open>JObject\<close> stands for any object
  or array.
\<close>

datatype jsval = JUndefined | JNull | JBool bool | JNum jsnum | JStr string | JObject

fun truthy :: "jsval \<Rightarrow> bool" where
  "truthy JUndefined = False"
| "truthy JNull = False"
| "truthy (JBool b) = b"
| "truthy (JNum n) = (n \<noteq> NaN \<and> n \<noteq> Fin 0)"
| "truthy (JStr s) = (s \<noteq> [])"
| "truthy JObject = True"

text \<open>
  What the body of the \<^verbatim>\<open>try\<close> of \<^verbatim>\<open>getNaiveUIVersion\<close> meets for a base path: the
  package is not resolved, its manifest is not readable, the manifest is not JSON, the
  manifest is the JSON value null (reading a property of it throws), or the manifest is
  a value whose property \<^verbatim>\<open>version\<close> reads as given (\<open>JUndefined\<close> when it has none).
\<close>

datatype manifest = NotResolved | NotReadable | NotParsable | ParsedNull | Parsed jsval

text \<open>\<^verbatim>\<open>getNaiveUIVersion(root)\<close>, lines 43 to 55: every failure is caught and gives null.\<close>

definition getNaiveUIVersion :: "(string \<Rightarrow> manifest) \<Rightarrow> string \<Rightarrow> jsval" where
  "getNaiveUIVersion world rootDir =
     (case world (if suffix ''/'' rootDir then rootDir else rootDir @ ''/'') of
        NotResolved \<Rightarrow> JNull
      | NotReadable \<Rightarrow> JNull
      | NotParsable \<Rightarrow> JNull
      | ParsedNull \<Rightarrow> JNull
      | Parsed version \<Rightarrow> version)"

text \<open>
  The hook \<^verbatim>\<open>configResolved\<close>, lines 71 to 78. A version that is truthy and not a string
  has no method \<^verbatim>\<open>split\<close>: \<^verbatim>\<open>compareVersion\<close> throws. The message to the logger is
  not represented.
\<close>

definition configResolved ::
  "(string \<Rightarrow> manifest) \<Rightarrow> (string \<Rightarrow> jsnum) \<Rightarrow> session \<Rightarrow> string \<Rightarrow> error + session" where
  "configResolved world other st rootDir =
     (let version = getNaiveUIVersion world rootDir
      in if truthy version then
           (case version of
              JStr v \<Rightarrow>
                if compareVersion other v FIXED_VERSION then Inr (st\<lparr>skipFix := True\<rparr>)
                else Inr st
            | _ \<Rightarrow> Inl TypeError)
         else Inr st)"

text \<open>The flag \<^verbatim>\<open>skipFix\<close> once the hook has run: a hook that throws assigns nothing.\<close>

definition skipFix_after ::
  "(string \<Rightarrow> manifest) \<Rightarrow> (string \<Rightarrow> jsnum) \<Rightarrow> session \<Rightarrow> string \<Rightarrow> bool" where
  "skipFix_after world other st rootDir =
     (case configResolved world other st rootDir of Inl e \<Rightarrow> skipFix st | Inr st' \<Rightarrow> skipFix st')"

section \<open>The virtual modules\<close>

text \<open>
  \<^verbatim>\<open>GetSubstitution\<close> of \<^verbatim>\<open>String.prototype.replace\<close> for a match without capture groups:
  in the replacement text, \<^verbatim>\<open>$$\<close> stands for a dollar sign, \<^verbatim>\<open>$&\<close> for the matched text,
  a dollar sign with a backquote for the text before the match and a dollar sign with an
  apostrophe for the text after it.
\<close>

fun get_substitution :: "string \<Rightarrow> string \<Rightarrow> nat \<Rightarrow> string \<Rightarrow> string" where
  "get_substitution matched str position [] = []"
| "get_substitution matched str position [c] = [c]"
| "get_substitution matched str position (c # d # rest) =
     (if c = CHR ''$'' \<and> d = CHR ''$'' then CHR ''$'' # get_substitution matched str position rest
      else if c = CHR ''$'' \<and> d = CHR ''&'' then matched @ get_substitution matched str position rest
      else if c = CHR ''$'' \<and> d = CHR 0x60
        then take position str @ get_substitution matched str position rest
      else if c = CHR ''$'' \<and> d = CHR 0x27
        then drop (position + length matched) str @ get_substitution matched str position rest
      else c # get_substitution matched str position (d # rest))"

text \<open>\<^verbatim>\<open>s.replace(pattern, replacement)\<close> for a pattern that is a string.\<close>

definition replace_string :: "string \<Rightarrow> string \<Rightarrow> string \<Rightarrow> string" where
  "replace_string s pattern replacement =
     (case indexOf s pattern of
        None \<Rightarrow> s
      | Some position \<Rightarrow>
          take position s @ get_substitution pattern s position replacement
          @ drop (position + length pattern) s)"

text \<open>\<^verbatim>\<open>s.replace(re, replacement)\<close> for a regular expression without flags or groups.\<close>

definition replace_regex :: "string \<Rightarrow> atom list \<Rightarrow> string \<Rightarrow> string" where
  "replace_regex s re replacement =
     (case regex_exec re s of
        None \<Rightarrow> s
      | Some (position, n) \<Rightarrow>
          take position s @ get_substitution (take n (drop position s)) s position replacement
          @ drop (position + n) s)"

text \<open>
  \<^verbatim>\<open>getVirtualPath\<close>, lines 11 to 20, from the directory of the running module:
  \<^verbatim>\<open>_dirname_.replace(/[/\\]dist$/, '/src/virtual')\<close>.
\<close>

definition getVirtualPath :: "string \<Rightarrow> string" where
  "getVirtualPath dirname =
     replace_regex dirname [Cls (\<lambda>c. c = CHR ''/'' \<or> c = CHR 0x5C), Lit ''dist'', Eos]
       ''/src/virtual''"

definition virtual_prefix :: string where
  "virtual_prefix = ''virtual:fixNaiveuiIcon-path:''"

text \<open>\<^verbatim>\<open>resolveId\<close>, lines 96 to 101; \<open>None\<close> is the null it returns.\<close>

definition resolveId :: "string \<Rightarrow> string \<Rightarrow> string option" where
  "resolveId VirtualPath ident =
     (if startsWith ident virtual_prefix
      then Some (replace_string ident virtual_prefix (VirtualPath @ ''/''))
      else None)"

text \<open>
  The file system as \<^verbatim>\<open>existsSync\<close> and \<^verbatim>\<open>readFileSync\<close> see it: a path names nothing, a
  file with its text, or a directory (which exists and cannot be read as a file).
\<close>

datatype node = File string | Directory

text \<open>\<^verbatim>\<open>load\<close>, lines 102 to 107; \<open>Inr None\<close> when it returns nothing.\<close>

definition load_js :: "string \<Rightarrow> (string \<Rightarrow> node option) \<Rightarrow> string \<Rightarrow> error + string option" where
  "load_js VirtualPath fs ident =
     (if startsWith ident VirtualPath then
        (case fs ident of
           None \<Rightarrow> Inr None
         | Some (File contents) \<Rightarrow> Inr (Some contents)
         | Some Directory \<Rightarrow> Inl FsError)
      else Inr None)"

section \<open>Values for the examples\<close>

text \<open>Recipes that leave the text as it is, and a \<^verbatim>\<open>Number\<close> without further cases.\<close>

definition no_recipes :: recipes where
  "no_recipes =
     \<lparr>transformDev = (\<lambda>m c. Inr m), tm_checkbox = (\<lambda>m c b. Inr m),
      tm_backTop = (\<lambda>m c b. Inr m), tm_rate = (\<lambda>m c b. Inr m), tm_result = (\<lambda>m. Inr m)\<rparr>"

definition only_digits :: "string \<Rightarrow> jsnum" where
  "only_digits s = NaN"

section \<open>The scanner of the specification and the depth of a position\<close>

text \<open>
  The scanner as the specification words it: \<open>findMatchingClose(text, startIndex)\<close>
  starts at depth 1 just after an opening brace, adds 1 to the depth at each opening
  brace and takes 1 from it at each closing brace, and returns the index just after the
  brace that brings the depth to zero, or nothing when the text ends first.
\<close>

fun findMatchingClose_from :: "string \<Rightarrow> int \<Rightarrow> nat \<Rightarrow> nat option" where
  "findMatchingClose_from [] depth i = None"
| "findMatchingClose_from (c # cs) depth i =
     (let depth' = (if c = CHR ''{'' then depth + 1
                    else if c = CHR ''}'' then depth - 1 else depth)
      in if depth' = 0 then Some (i + 1) else findMatchingClose_from cs depth' (i + 1))"

definition findMatchingClose :: "string \<Rightarrow> nat \<Rightarrow> nat option" where
  "findMatchingClose text startIndex =
     findMatchingClose_from (drop startIndex text) 1 startIndex"

text \<open>
  The depth after the characters from \<open>startIndex\<close> up to \<open>j\<close>: 1, plus the opening
  braces, minus the closing braces among them.
\<close>

definition balance :: "string \<Rightarrow> int" where
  "balance s = int (count_list s CHR ''{'') - int (count_list s CHR ''}'')"

definition depth_at :: "string \<Rightarrow> nat \<Rightarrow> nat \<Rightarrow> int" where
  "depth_at text startIndex j = 1 + balance (slice text startIndex j)"

declare findMatchingClose_from.simps(2) [simp del]

section \<open>The chunks of a text after one replacement\<close>

text \<open>
  The chunks of a fresh \<^verbatim>\<open>MagicString\<close> over \<open>code\<close> once the range from \<open>p\<close> up to
  \<open>e\<close> has been overwritten: what lies before the range, the edited range, and what
  lies after it.
\<close>

definition renamed_chunks :: "string \<Rightarrow> nat \<Rightarrow> nat \<Rightarrow> string \<Rightarrow> chunk list" where
  "renamed_chunks code p e repl =
     (if p = 0 then []
      else [\<lparr>chunk_start = 0, chunk_end = p, chunk_intro = [], chunk_content = take p code,
              chunk_outro = [], chunk_edited = False\<rparr>])
     @ [\<lparr>chunk_start = p, chunk_end = e, chunk_intro = [], chunk_content = repl,
          chunk_outro = [], chunk_edited = True\<rparr>]
     @ (if e = length code then []
        else [\<lparr>chunk_start = e, chunk_end = length code, chunk_intro = [],
                chunk_content = drop e code, chunk_outro = [], chunk_edited = False\<rparr>])"

section \<open>The comparison of the specification\<close>

text \<open>
  The comparison as the specification words it, on the numeric components of the two
  versions: from the most significant component on, a missing component counts as 0,
  and the first difference decides.
\<close>

definition components :: "string \<Rightarrow> nat list" where
  "components v = map decimal (split_js CHR ''.'' v)"

fun isAtLeast :: "nat list \<Rightarrow> nat list \<Rightarrow> bool" where
  "isAtLeast [] [] = True"
| "isAtLeast (x # xs) [] = (if 0 < x then True else isAtLeast xs [])"
| "isAtLeast [] (y # ys) = (if 0 < y then False else isAtLeast [] ys)"
| "isAtLeast (x # xs) (y # ys) =
     (if y < x then True else if x < y then False else isAtLeast xs ys)"

definition component_at :: "nat list \<Rightarrow> nat \<Rightarrow> nat" where
  "component_at xs i = (if i < length xs then xs ! i else 0)"

section \<open>Further values for the examples\<close>

text \<open>A filter of the session is assigned and accepts the identity.\<close>

definition accepts :: "(string \<Rightarrow> bool) option \<Rightarrow> string \<Rightarrow> bool" where
  "accepts filter_opt ident = (case filter_opt of None \<Rightarrow> False | Some f \<Rightarrow> f ident)"

text \<open>Recipes that put the name of the recipe in front of the text.\<close>

definition naming_recipes :: recipes where
  "naming_recipes =
     \<lparr>transformDev = (\<lambda>m c. Inr (prepend m ''/*dev*/'')),
      tm_checkbox = (\<lambda>m c b. Inr (prepend m ''/*checkbox*/'')),
      tm_backTop = (\<lambda>m c b. Inr (prepend m ''/*back-top*/'')),
      tm_rate = (\<lambda>m c b. Inr (prepend m ''/*rate*/'')),
      tm_result = (\<lambda>m. Inr (prepend m ''/*result*/''))\<rparr>"

section \<open>Properties\<close>

subsection \<open>Searching a text\<close>

lemma indexOf_from_Some:
  "indexOf_from s sub i = Some p \<Longrightarrow>
     i \<le> p \<and> prefix sub (drop (p - i) s) \<and> (\<forall>q < p - i. \<not> prefix sub (drop q s))"
proof (induction s arbitrary: i)
  case Nil
  then show ?case by (simp split: if_splits)
next
  case (Cons c cs)
  show ?case
  proof (cases "prefix sub (c # cs)")
    case True
    with Cons.prems show ?thesis by simp
  next
    case False
    with Cons.prems have r: "indexOf_from cs sub (Suc i) = Some p" by simp
    from Cons.IH [OF r] have le: "Suc i \<le> p"
      and pre: "prefix sub (drop (p - Suc i) cs)"
      and first: "\<forall>q < p - Suc i. \<not> prefix sub (drop q cs)" by auto
    from le have eq: "p - i = Suc (p - Suc i)" by simp
    have "\<not> prefix sub (drop q (c # cs))" if "q < p - i" for q
    proof (cases q)
      case 0
      with False show ?thesis by simp
    next
      case (Suc q')
      with that eq have "q' < p - Suc i" by simp
      with first Suc show ?thesis by simp
    qed
    with le pre eq show ?thesis by simp
  qed
qed

lemma indexOf_from_None:
  "indexOf_from s sub i = None \<Longrightarrow> q \<le> length s \<Longrightarrow> \<not> prefix sub (drop q s)"
proof (induction s arbitrary: i q)
  case Nil
  then show ?case by (simp split: if_splits)
next
  case (Cons c cs)
  then show ?case by (cases q) (auto split: if_splits)
qed

lemma indexOf_Some:
  assumes "indexOf s sub = Some p"
  shows "prefix sub (drop p s)" and "p + length sub \<le> length s"
    and "take (length sub) (drop p s) = sub" and "\<And>q. q < p \<Longrightarrow> \<not> prefix sub (drop q s)"
proof -
  from indexOf_from_Some [of s sub 0 p] assms
  have pre: "prefix sub (drop p s)" and first: "\<forall>q < p. \<not> prefix sub (drop q s)"
    by (auto simp: indexOf_def)
  show "prefix sub (drop p s)" by (rule pre)
  from pre obtain zs where zs: "drop p s = sub @ zs" by (auto simp: prefix_def)
  then show "take (length sub) (drop p s) = sub" by simp
  from zs have "length sub \<le> length (drop p s)" by simp
  moreover have "p \<le> length s"
  proof (rule ccontr)
    assume "\<not> p \<le> length s"
    then have "drop (length s) s = [] \<and> drop p s = [] \<and> length s < p" by simp
    with pre first show False by auto
  qed
  ultimately show "p + length sub \<le> length s" by simp
  show "\<And>q. q < p \<Longrightarrow> \<not> prefix sub (drop q s)" using first by simp
qed

lemma indexOf_split:
  assumes "indexOf s sub = Some p"
  shows "s = take p s @ sub @ drop (p + length sub) s"
proof -
  have "drop p s = take (length sub) (drop p s) @ drop (length sub) (drop p s)"
    by (rule append_take_drop_id [symmetric])
  also have "\<dots> = sub @ drop (p + length sub) s"
    using indexOf_Some(3) [OF assms] by (simp add: add.commute)
  finally have "take p s @ drop p s = take p s @ sub @ drop (p + length sub) s" by simp
  then show ?thesis by simp
qed

lemma indexOf_None:
  "indexOf s sub = None \<Longrightarrow> s \<noteq> a @ sub @ b"
proof
  assume n: "indexOf s sub = None" and s: "s = a @ sub @ b"
  from n have "\<not> prefix sub (drop (length a) s)"
    using indexOf_from_None [of s sub 0 "length a"] s by (simp add: indexOf_def)
  with s show False by simp
qed

lemma includes_js_iff: "includes_js s sub \<longleftrightarrow> (\<exists>a b. s = a @ sub @ b)"
proof
  assume "includes_js s sub"
  then obtain p where "indexOf s sub = Some p" by (auto simp: includes_js_def)
  from indexOf_split [OF this] show "\<exists>a b. s = a @ sub @ b" by blast
next
  assume "\<exists>a b. s = a @ sub @ b"
  then show "includes_js s sub"
    using indexOf_None [of s sub] by (auto simp: includes_js_def)
qed

lemma indexOf_prefix: "prefix sub s \<Longrightarrow> indexOf s sub = Some 0"
  by (cases s) (auto simp: indexOf_def)

subsection \<open>Matching a regular expression\<close>

lemma first_some_Some:
  "first_some xs = Some y \<Longrightarrow> Some y \<in> set xs"
  by (induction xs rule: first_some.induct) auto

lemma atom_rests_suffix: "x \<in> set (atom_rests a s) \<Longrightarrow> suffix x s"
  by (cases a) (auto simp: suffix_drop suffix_ConsI split: if_splits list.splits)

lemma seq_match_suffix: "seq_match r s = Some rest \<Longrightarrow> suffix rest s"
proof (induction r arbitrary: s)
  case Nil
  then show ?case by simp
next
  case (Cons a r)
  from Cons.prems have "Some rest \<in> set (map (seq_match r) (atom_rests a s))"
    by (auto dest: first_some_Some)
  then obtain x where x: "x \<in> set (atom_rests a s)" and m: "seq_match r x = Some rest"
    by auto
  from Cons.IH [OF m] atom_rests_suffix [OF x] show ?case
    by (rule suffix_order.trans)
qed

lemma exec_from_Some:
  "exec_from r s i = Some (p, n) \<Longrightarrow>
     i \<le> p \<and> p - i + n \<le> length s
     \<and> seq_match r (drop (p - i) s) = Some (drop (p - i + n) s)
     \<and> (\<forall>q < p - i. seq_match r (drop q s) = None)"
proof (induction s arbitrary: i)
  case Nil
  then show ?case by (auto split: option.splits dest: seq_match_suffix)
next
  case (Cons c cs)
  show ?case
  proof (cases "seq_match r (c # cs)")
    case None
    with Cons.prems have r: "exec_from r cs (Suc i) = Some (p, n)" by simp
    from Cons.IH [OF r] have le: "Suc i \<le> p" and len: "p - Suc i + n \<le> length cs"
      and m: "seq_match r (drop (p - Suc i) cs) = Some (drop (p - Suc i + n) cs)"
      and first: "\<forall>q < p - Suc i. seq_match r (drop q cs) = None" by auto
    from le have eq: "p - i = Suc (p - Suc i)" by simp
    have "seq_match r (drop q (c # cs)) = None" if "q < p - i" for q
    proof (cases q)
      case 0
      with None show ?thesis by simp
    next
      case (Suc q')
      with that eq have "q' < p - Suc i" by simp
      with first Suc show ?thesis by simp
    qed
    with le len m eq show ?thesis by simp
  next
    case (Some rest)
    with Cons.prems have p: "p = i" and n: "n = length (c # cs) - length rest" by auto
    from seq_match_suffix [OF Some] obtain zs where zs: "c # cs = zs @ rest"
      by (auto simp: suffix_def)
    then have "length (c # cs) = length zs + length rest" by (metis length_append)
    with n have nz: "n = length zs" by simp
    with zs have "drop n (c # cs) = rest" by (metis append_eq_conv_conj)
    moreover from zs nz have "n \<le> length (c # cs)" by (metis length_append le_add1)
    ultimately show ?thesis using Some p by simp
  qed
qed

lemma exec_from_None:
  "exec_from r s i = None \<Longrightarrow> q \<le> length s \<Longrightarrow> seq_match r (drop q s) = None"
proof (induction s arbitrary: i q)
  case Nil
  then show ?case by (simp split: option.splits)
next
  case (Cons c cs)
  then show ?case by (cases q) (auto split: option.splits)
qed

lemma regex_exec_Some:
  assumes "regex_exec r s = Some (p, n)"
  shows "p + n \<le> length s" and "seq_match r (drop p s) = Some (drop (p + n) s)"
    and "\<And>q. q < p \<Longrightarrow> seq_match r (drop q s) = None"
  using exec_from_Some [of r s 0 p n] assms by (auto simp: regex_exec_def)

lemma regex_exec_finds:
  assumes "seq_match r (drop q s) \<noteq> None" and "q \<le> length s"
  shows "\<exists>p n. regex_exec r s = Some (p, n) \<and> p \<le> q"
proof (cases "regex_exec r s")
  case None
  with exec_from_None [of r s 0 q] assms show ?thesis by (simp add: regex_exec_def)
next
  case (Some pn)
  obtain p n where pn: "pn = (p, n)" by (cases pn)
  with Some regex_exec_Some(3) [of r s p n q] assms have "\<not> q < p" by auto
  with Some pn show ?thesis by auto
qed

lemma regex_test_Lit: "regex_test [Lit l] s \<longleftrightarrow> includes_js s l"
proof
  assume "regex_test [Lit l] s"
  then obtain p n where e: "regex_exec [Lit l] s = Some (p, n)"
    by (auto simp: regex_test_def)
  from regex_exec_Some(2) [OF e] have "prefix l (drop p s)" by (simp split: if_splits)
  then obtain zs where "drop p s = l @ zs" by (auto simp: prefix_def)
  then have "s = take p s @ l @ zs" by (metis append_take_drop_id)
  then show "includes_js s l" unfolding includes_js_iff by blast
next
  assume "includes_js s l"
  then obtain a b where s: "s = a @ l @ b" unfolding includes_js_iff by blast
  then have "seq_match [Lit l] (drop (length a) s) \<noteq> None" by simp
  from regex_exec_finds [OF this] s show "regex_test [Lit l] s"
    by (auto simp: regex_test_def)
qed

lemma setup_re_at_literal: "seq_match setup_re (''setup() {'' @ b) = Some b"
  by (simp add: setup_re_def is_space_def)

lemma replaceable_re_at_signature:
  "seq_match replaceable_re (''function replaceable(name, icon) {'' @ b) = Some b"
  by (simp add: replaceable_re_def is_space_def not_comma_def)

subsection \<open>Editing a fresh text\<close>

lemma replace_ms_absent:
  "indexOf code sub = None \<Longrightarrow> replace_ms (new_MagicString code) sub repl = Inr (new_MagicString code)"
  by (simp add: replace_ms_def new_MagicString_def)

lemma original_new [simp]: "original (new_MagicString code) = code"
  by (simp add: new_MagicString_def)

lemma toString_new [simp]: "toString (new_MagicString code) = code"
  by (simp add: toString_def new_MagicString_def)

lemma overwrite_fresh:
  assumes "p < e" and "e \<le> length code"
  shows "overwrite (new_MagicString code) p e repl
         = Inr \<lparr>original = code, ms_intro = [], ms_outro = [],
                chunks = renamed_chunks code p e repl\<rparr>"
proof -
  consider (a) "p = 0" "e = length code" | (b) "p = 0" "e < length code"
    | (c) "0 < p" "e = length code" | (d) "0 < p" "e < length code"
    using assms by linarith
  then show ?thesis
  proof cases
    case a
    with assms show ?thesis
      by (simp add: overwrite_def new_MagicString_def renamed_chunks_def edit_chunk_def)
  next
    case b
    with assms show ?thesis
      by (simp add: overwrite_def new_MagicString_def renamed_chunks_def edit_chunk_def)
  next
    case c
    with assms show ?thesis
      by (simp add: overwrite_def new_MagicString_def renamed_chunks_def edit_chunk_def)
  next
    case d
    with assms show ?thesis
      by (simp add: overwrite_def new_MagicString_def renamed_chunks_def edit_chunk_def
          min_def drop_take)
  qed
qed

lemma toString_renamed:
  assumes "p < e" and "e \<le> length code"
  shows "toString \<lparr>original = code, ms_intro = [], ms_outro = [],
                    chunks = renamed_chunks code p e repl\<rparr>
         = take p code @ repl @ drop e code"
  using assms by (simp add: toString_def renamed_chunks_def)

lemma replace_ms_present:
  assumes "indexOf code sub = Some p" and "sub \<noteq> []" and "sub \<noteq> repl"
  shows "replace_ms (new_MagicString code) sub repl
         = Inr \<lparr>original = code, ms_intro = [], ms_outro = [],
                chunks = renamed_chunks code p (p + length sub) repl\<rparr>"
proof -
  have "p < p + length sub" using assms(2) by simp
  moreover have "p + length sub \<le> length code" by (rule indexOf_Some(2) [OF assms(1)])
  ultimately show ?thesis
    using assms by (simp add: replace_ms_def overwrite_fresh)
qed

text \<open>The text after the replacement alone.\<close>

lemma toString_replace_ms:
  assumes "sub \<noteq> []" and "sub \<noteq> repl"
  shows "\<exists>ms. replace_ms (new_MagicString code) sub repl = Inr ms
           \<and> toString ms = (case indexOf code sub of None \<Rightarrow> code
                 | Some p \<Rightarrow> take p code @ repl @ drop (p + length sub) code)"
proof (cases "indexOf code sub")
  case None
  then show ?thesis by (simp add: replace_ms_absent)
next
  case (Some p)
  have "p < p + length sub" using assms(1) by simp
  moreover have "p + length sub \<le> length code" by (rule indexOf_Some(2) [OF Some])
  ultimately show ?thesis
    using Some assms by (simp add: replace_ms_present toString_renamed)
qed

lemma appendLeft_renamed:
  assumes "p < e" and "e < i" and "i \<le> length code"
  shows "\<exists>ms. appendLeft \<lparr>original = code, ms_intro = [], ms_outro = [],
                           chunks = renamed_chunks code p e repl\<rparr> i ins = Inr ms
           \<and> toString ms
             = take p code @ repl @ take (i - e) (drop e code) @ ins @ drop i code"
proof -
  consider (a) "p = 0" "i = length code" | (b) "p = 0" "i < length code"
    | (c) "0 < p" "i = length code" | (d) "0 < p" "i < length code"
    using assms by linarith
  then show ?thesis
  proof cases
    case a
    with assms show ?thesis
      by (simp add: appendLeft_def renamed_chunks_def toString_def)
  next
    case b
    with assms show ?thesis
      by (simp add: appendLeft_def renamed_chunks_def toString_def)
  next
    case c
    with assms show ?thesis
      by (simp add: appendLeft_def renamed_chunks_def toString_def)
  next
    case d
    with assms show ?thesis
      by (simp add: appendLeft_def renamed_chunks_def toString_def)
  qed
qed

lemma literal_facts:
  "replaceable_literal \<noteq> []" "replaceable_literal \<noteq> replaceable_renamed"
  "length replaceable_literal = 32"
  by (simp_all add: replaceable_literal_def replaceable_renamed_def)

lemma replaceable_transform_accepting:
  assumes "\<not> skipFix st" and "fixReplaceableFilter st = Some f" and "f ident"
    and "replace_ms (new_MagicString code) replaceable_literal replaceable_renamed = Inr ms"
  shows "replaceable_transform st code ident =
     (case regex_exec replaceable_re code of
        None \<Rightarrow> Inr (Some (toString ms))
      | Some (startIdx, fullLength) \<Rightarrow>
         (case regex_exec setup_re
                 (slice code (startIdx + fullLength)
                    (snd (brace_scan code 1 (startIdx + fullLength)))) of
            None \<Rightarrow> Inr (Some (toString ms))
          | Some (setupIndex, setupLength) \<Rightarrow>
             (case appendLeft ms (startIdx + fullLength + setupIndex + setupLength)
                     icon_binding of
                Inl e \<Rightarrow> Inl e
              | Inr ms' \<Rightarrow> Inr (Some (toString ms')))))"
  using assms
  by (simp add: replaceable_transform_def Let_def split: option.split prod.split)

subsection \<open>The scan of the code and the scanner of the specification\<close>

lemma balance_Nil [simp]: "balance [] = 0"
  by (simp add: balance_def)

lemma balance_Cons:
  "balance (c # cs) = (if c = CHR ''{'' then 1 else if c = CHR ''}'' then - 1 else 0) + balance cs"
  by (simp add: balance_def)

lemma findMatchingClose_from_Cons:
  "findMatchingClose_from (c # cs) d i =
     (if d + (if c = CHR ''{'' then 1 else if c = CHR ''}'' then - 1 else 0) = 0
      then Some (i + 1)
      else findMatchingClose_from cs
             (d + (if c = CHR ''{'' then 1 else if c = CHR ''}'' then - 1 else 0)) (i + 1))"
  by (auto simp: Let_def findMatchingClose_from.simps(2))

lemma findMatchingClose_from_char:
  assumes "0 < d"
  shows "findMatchingClose_from cs d i = Some r \<longleftrightarrow>
           (\<exists>n. r = i + n \<and> 0 < n \<and> n \<le> length cs \<and> d + balance (take n cs) = 0
                \<and> (\<forall>m < n. 0 < d + balance (take m cs)))"
  using assms
proof (induction cs arbitrary: d i)
  case Nil
  then show ?case by simp
next
  case (Cons c cs)
  define d' where "d' = d + (if c = CHR ''{'' then 1 else if c = CHR ''}'' then - 1 else 0)"
  have step: "findMatchingClose_from (c # cs) d i =
      (if d' = 0 then Some (i + 1) else findMatchingClose_from cs d' (i + 1))"
    unfolding d'_def by (rule findMatchingClose_from_Cons)
  have d'nonneg: "0 \<le> d'" using Cons.prems by (simp add: d'_def)
  have bal: "d + balance (take (Suc m) (c # cs)) = d' + balance (take m cs)" for m
    by (simp add: balance_Cons d'_def)
  show ?case
  proof (cases "d' = 0")
    case True
    have "(\<exists>n. r = i + n \<and> 0 < n \<and> n \<le> length (c # cs) \<and> d + balance (take n (c # cs)) = 0
                \<and> (\<forall>m < n. 0 < d + balance (take m (c # cs)))) \<longleftrightarrow> r = i + 1"
    proof
      assume "\<exists>n. r = i + n \<and> 0 < n \<and> n \<le> length (c # cs) \<and> d + balance (take n (c # cs)) = 0
                \<and> (\<forall>m < n. 0 < d + balance (take m (c # cs)))"
      then obtain n where n: "r = i + n" "0 < n"
        and pos: "\<forall>m < n. 0 < d + balance (take m (c # cs))" by blast
      have "\<not> 1 < n"
      proof
        assume "1 < n"
        then have "Suc 0 < n" by simp
        with pos have "0 < d + balance (take (Suc 0) (c # cs))" by blast
        with bal [of 0] True show False by simp
      qed
      with n show "r = i + 1" by simp
    next
      assume r: "r = i + 1"
      have "d + balance (take 1 (c # cs)) = 0" using bal [of 0] True by simp
      moreover have "\<forall>m < (1::nat). 0 < d + balance (take m (c # cs))"
        using Cons.prems by simp
      ultimately show "\<exists>n. r = i + n \<and> 0 < n \<and> n \<le> length (c # cs)
                \<and> d + balance (take n (c # cs)) = 0
                \<and> (\<forall>m < n. 0 < d + balance (take m (c # cs)))"
        using r by (intro exI [of _ 1]) simp
    qed
    with step True show ?thesis by auto
  next
    case False
    with d'nonneg have d'pos: "0 < d'" by simp
    have ih: "findMatchingClose_from cs d' (i + 1) = Some r \<longleftrightarrow>
           (\<exists>n. r = i + 1 + n \<and> 0 < n \<and> n \<le> length cs \<and> d' + balance (take n cs) = 0
                \<and> (\<forall>m < n. 0 < d' + balance (take m cs)))"
      by (rule Cons.IH [OF d'pos])
    have "(\<exists>n. r = i + 1 + n \<and> 0 < n \<and> n \<le> length cs \<and> d' + balance (take n cs) = 0
                \<and> (\<forall>m < n. 0 < d' + balance (take m cs)))
          \<longleftrightarrow> (\<exists>n. r = i + n \<and> 0 < n \<and> n \<le> length (c # cs)
                \<and> d + balance (take n (c # cs)) = 0
                \<and> (\<forall>m < n. 0 < d + balance (take m (c # cs))))"
    proof
      assume "\<exists>n. r = i + 1 + n \<and> 0 < n \<and> n \<le> length cs \<and> d' + balance (take n cs) = 0
                \<and> (\<forall>m < n. 0 < d' + balance (take m cs))"
      then obtain n where n: "r = i + 1 + n" "0 < n" "n \<le> length cs"
        "d' + balance (take n cs) = 0" and pos: "\<forall>m < n. 0 < d' + balance (take m cs)"
        by blast
      have "0 < d + balance (take m (c # cs))" if "m < Suc n" for m
      proof (cases m)
        case 0
        with Cons.prems show ?thesis by simp
      next
        case (Suc m')
        with that pos have "0 < d' + balance (take m' cs)" by simp
        with bal [of m'] Suc show ?thesis by simp
      qed
      moreover have "d + balance (take (Suc n) (c # cs)) = 0" using bal [of n] n by simp
      ultimately show "\<exists>n. r = i + n \<and> 0 < n \<and> n \<le> length (c # cs)
                \<and> d + balance (take n (c # cs)) = 0
                \<and> (\<forall>m < n. 0 < d + balance (take m (c # cs)))"
        using n by (intro exI [of _ "Suc n"]) simp
    next
      assume "\<exists>n. r = i + n \<and> 0 < n \<and> n \<le> length (c # cs)
                \<and> d + balance (take n (c # cs)) = 0
                \<and> (\<forall>m < n. 0 < d + balance (take m (c # cs)))"
      then obtain n where n: "r = i + n" "0 < n" "n \<le> length (c # cs)"
        "d + balance (take n (c # cs)) = 0"
        and pos: "\<forall>m < n. 0 < d + balance (take m (c # cs))" by blast
      from n(2) obtain n' where n': "n = Suc n'" by (cases n) auto
      have z: "d' + balance (take n' cs) = 0" using bal [of n'] n(4) n' by simp
      with False have "0 < n'" by (cases n') auto
      moreover have "\<forall>m < n'. 0 < d' + balance (take m cs)"
      proof (intro allI impI)
        fix m assume "m < n'"
        then have "Suc m < n" using n' by simp
        with pos have "0 < d + balance (take (Suc m) (c # cs))" by blast
        with bal [of m] show "0 < d' + balance (take m cs)" by simp
      qed
      ultimately show "\<exists>n. r = i + 1 + n \<and> 0 < n \<and> n \<le> length cs
                \<and> d' + balance (take n cs) = 0
                \<and> (\<forall>m < n. 0 < d' + balance (take m cs))"
        using n n' z by (intro exI [of _ n']) simp
    qed
    with step False ih show ?thesis by simp
  qed
qed

lemma findMatchingClose_from_None:
  "0 < d \<Longrightarrow> findMatchingClose_from cs d i = None \<Longrightarrow> m \<le> length cs
     \<Longrightarrow> 0 < d + balance (take m cs)"
proof (induction cs arbitrary: d i m)
  case Nil
  then show ?case by simp
next
  case (Cons c cs)
  define d' where "d' = d + (if c = CHR ''{'' then 1 else if c = CHR ''}'' then - 1 else 0)"
  from Cons.prems(2) have nz: "d' \<noteq> 0" and rec: "findMatchingClose_from cs d' (i + 1) = None"
    unfolding findMatchingClose_from_Cons d'_def by (simp_all split: if_splits)
  have "0 \<le> d'" using Cons.prems(1) by (simp add: d'_def)
  with nz have d'pos: "0 < d'" by simp
  show ?case
  proof (cases m)
    case 0
    with Cons.prems show ?thesis by simp
  next
    case (Suc m')
    with Cons.prems(3) have "m' \<le> length cs" by simp
    from Cons.IH [OF d'pos rec this] Suc show ?thesis
      by (simp add: balance_Cons d'_def)
  qed
qed

lemma brace_scan_finished: "d \<le> 0 \<or> length text \<le> i \<Longrightarrow> brace_scan text d i = (d, i)"
  by (subst brace_scan.simps) auto

lemma brace_scan_step:
  "0 < d \<Longrightarrow> i < length text \<Longrightarrow>
     brace_scan text d i =
       brace_scan text
         (d + (if text ! i = CHR ''{'' then 1 else if text ! i = CHR ''}'' then - 1 else 0))
         (i + 1)"
  by (subst brace_scan.simps) (simp add: Let_def)

lemma brace_scan_refines:
  "0 < d \<Longrightarrow> i \<le> length text \<Longrightarrow>
     brace_scan text d i =
       (case findMatchingClose_from (drop i text) d i of
          Some r \<Rightarrow> (0, r)
        | None \<Rightarrow> (d + balance (drop i text), length text))"
proof (induction "length text - i" arbitrary: d i)
  case 0
  then have "drop i text = []" and "i = length text" by simp_all
  then show ?case by (simp add: brace_scan_finished)
next
  case (Suc n)
  then have lt: "i < length text" by simp
  define c where "c = text ! i"
  define d' where "d' = d + (if c = CHR ''{'' then 1 else if c = CHR ''}'' then - 1 else 0)"
  have dr: "drop i text = c # drop (Suc i) text"
    using lt by (simp add: c_def Cons_nth_drop_Suc)
  have step: "brace_scan text d i = brace_scan text d' (i + 1)"
    using brace_scan_step [OF Suc.prems(1) lt] by (simp add: c_def d'_def)
  have "0 \<le> d'" using Suc.prems(1) by (simp add: d'_def)
  show ?case
  proof (cases "d' = 0")
    case True
    then have "brace_scan text d' (i + 1) = (0, i + 1)" by (simp add: brace_scan_finished)
    moreover have "findMatchingClose_from (drop i text) d i = Some (i + 1)"
      using True unfolding dr findMatchingClose_from_Cons d'_def by simp
    ultimately show ?thesis using step by simp
  next
    case False
    with \<open>0 \<le> d'\<close> have d'pos: "0 < d'" by simp
    have n: "n = length text - (i + 1)" using Suc.hyps(2) by simp
    have le: "i + 1 \<le> length text" using lt by simp
    have ih: "brace_scan text d' (i + 1) =
       (case findMatchingClose_from (drop (i + 1) text) d' (i + 1) of
          Some r \<Rightarrow> (0, r)
        | None \<Rightarrow> (d' + balance (drop (i + 1) text), length text))"
      by (rule Suc.hyps(1) [OF n d'pos le])
    have f: "findMatchingClose_from (drop i text) d i
               = findMatchingClose_from (drop (i + 1) text) d' (i + 1)"
      using False unfolding dr findMatchingClose_from_Cons d'_def by simp
    have b: "d + balance (drop i text) = d' + balance (drop (i + 1) text)"
      by (simp add: dr balance_Cons d'_def)
    show ?thesis using step ih f b by (auto split: option.split)
  qed
qed

lemma findMatchingClose_char:
  assumes "startIndex \<le> length text"
  shows "findMatchingClose text startIndex = Some r \<longleftrightarrow>
           (startIndex < r \<and> r \<le> length text \<and> depth_at text startIndex r = 0
            \<and> (\<forall>j. startIndex \<le> j \<and> j < r \<longrightarrow> 0 < depth_at text startIndex j))"
proof -
  have d: "depth_at text startIndex (startIndex + m) = 1 + balance (take m (drop startIndex text))"
    for m by (simp add: depth_at_def slice_def)
  have "findMatchingClose text startIndex = Some r \<longleftrightarrow>
      (\<exists>n. r = startIndex + n \<and> 0 < n \<and> n \<le> length (drop startIndex text)
           \<and> 1 + balance (take n (drop startIndex text)) = 0
           \<and> (\<forall>m < n. 0 < 1 + balance (take m (drop startIndex text))))"
    unfolding findMatchingClose_def by (rule findMatchingClose_from_char) simp
  also have "\<dots> \<longleftrightarrow> (startIndex < r \<and> r \<le> length text \<and> depth_at text startIndex r = 0
            \<and> (\<forall>j. startIndex \<le> j \<and> j < r \<longrightarrow> 0 < depth_at text startIndex j))"
  proof
    assume "\<exists>n. r = startIndex + n \<and> 0 < n \<and> n \<le> length (drop startIndex text)
           \<and> 1 + balance (take n (drop startIndex text)) = 0
           \<and> (\<forall>m < n. 0 < 1 + balance (take m (drop startIndex text)))"
    then obtain n where n: "r = startIndex + n" "0 < n" "n \<le> length (drop startIndex text)"
      "1 + balance (take n (drop startIndex text)) = 0"
      and pos: "\<forall>m < n. 0 < 1 + balance (take m (drop startIndex text))" by blast
    have "0 < depth_at text startIndex j" if "startIndex \<le> j" "j < r" for j
    proof -
      from that n(1) have "j - startIndex < n" and "j = startIndex + (j - startIndex)" by simp_all
      with pos d [of "j - startIndex"] show ?thesis by simp
    qed
    with n d [of n] assms show "startIndex < r \<and> r \<le> length text
        \<and> depth_at text startIndex r = 0
        \<and> (\<forall>j. startIndex \<le> j \<and> j < r \<longrightarrow> 0 < depth_at text startIndex j)"
      by simp
  next
    assume a: "startIndex < r \<and> r \<le> length text \<and> depth_at text startIndex r = 0
            \<and> (\<forall>j. startIndex \<le> j \<and> j < r \<longrightarrow> 0 < depth_at text startIndex j)"
    define n where "n = r - startIndex"
    have r: "r = startIndex + n" using a by (simp add: n_def)
    have "0 < 1 + balance (take m (drop startIndex text))" if "m < n" for m
    proof -
      from a have "startIndex \<le> startIndex + m \<and> startIndex + m < r
          \<longrightarrow> 0 < depth_at text startIndex (startIndex + m)" by blast
      with that r d [of m] show ?thesis by simp
    qed
    moreover have "1 + balance (take n (drop startIndex text)) = 0" using a d [of n] r by simp
    moreover from a have "startIndex < r" and "r \<le> length text" by blast+
    then have "0 < n" and "n \<le> length (drop startIndex text)"
      unfolding n_def length_drop by linarith+
    ultimately show "\<exists>n. r = startIndex + n \<and> 0 < n \<and> n \<le> length (drop startIndex text)
           \<and> 1 + balance (take n (drop startIndex text)) = 0
           \<and> (\<forall>m < n. 0 < 1 + balance (take m (drop startIndex text)))"
      using r by (intro exI [of _ n]) blast
  qed
  finally show ?thesis .
qed

subsection \<open>Numbers that a double holds exactly\<close>

lemmas version_eval =
  FIXED_VERSION_def compareVersion_def compareVersion_loop.simps or_zero_def Number_js_def
  is_digit_def decimal_def nearest_double_def bit_length.simps

lemma version_2_41_0: "compareVersion other ''2.41.0'' FIXED_VERSION"
  by (simp add: version_eval)

lemma bit_length_less: "n < 2 ^ k \<Longrightarrow> bit_length n \<le> k"
proof (induction k arbitrary: n)
  case 0
  then show ?case by (simp add: bit_length.simps)
next
  case (Suc k)
  show ?case
  proof (cases "n = 0")
    case True
    then show ?thesis by (simp add: bit_length.simps)
  next
    case False
    from Suc.prems have "n div 2 < 2 ^ k" by simp
    from Suc.IH [OF this] False show ?thesis
      by (subst bit_length.simps) simp
  qed
qed

lemma bit_length_power: "bit_length (2 ^ k) = Suc k"
proof (induction k)
  case 0
  then show ?case by (simp add: bit_length.simps)
next
  case (Suc k)
  then show ?case by (subst bit_length.simps) simp
qed

lemma nearest_double_exact:
  assumes "n \<le> 2 ^ 53"
  shows "nearest_double n = Fin (of_nat n)"
proof (cases "n = 2 ^ 53")
  case True
  show ?thesis unfolding True by (simp add: nearest_double_def bit_length.simps)
next
  case False
  with assms have "n < 2 ^ 53" by simp
  from bit_length_less [OF this] show ?thesis
    unfolding nearest_double_def Let_def by simp
qed

lemma Number_js_exact:
  assumes "list_all is_digit s" and "decimal s \<le> 2 ^ 53"
  shows "Number_js other s = Fin (of_nat (decimal s))"
proof (cases "s = []")
  case True
  then show ?thesis by (simp add: Number_js_def decimal_def)
next
  case False
  with assms show ?thesis by (simp add: Number_js_def nearest_double_exact)
qed

subsection \<open>The loop of the comparison\<close>

lemma or_zero_exact:
  "or_zero (map (\<lambda>n. Fin (of_nat n)) a) i = Fin (of_nat (component_at a i))"
  by (simp add: or_zero_def component_at_def)

lemma isAtLeast_drop:
  assumes "i < max (length a) (length b)"
  shows "isAtLeast (drop i a) (drop i b) =
     (if component_at b i < component_at a i then True
      else if component_at a i < component_at b i then False
      else isAtLeast (drop (Suc i) a) (drop (Suc i) b))"
proof -
  consider (both) "i < length a" "i < length b" | (left) "i < length a" "length b \<le> i"
    | (right) "length a \<le> i" "i < length b"
    using assms by linarith
  then show ?thesis
  proof cases
    case both
    then have "drop i a = a ! i # drop (Suc i) a" and "drop i b = b ! i # drop (Suc i) b"
      by (simp_all add: Cons_nth_drop_Suc)
    with both show ?thesis by (simp add: component_at_def)
  next
    case left
    then have "drop i a = a ! i # drop (Suc i) a" and "drop i b = []" and "drop (Suc i) b = []"
      by (simp_all add: Cons_nth_drop_Suc)
    with left show ?thesis by (simp add: component_at_def)
  next
    case right
    then have "drop i b = b ! i # drop (Suc i) b" and "drop i a = []" and "drop (Suc i) a = []"
      by (simp_all add: Cons_nth_drop_Suc)
    with right show ?thesis by (simp add: component_at_def)
  qed
qed

lemma compareVersion_loop_exact:
  "compareVersion_loop (map (\<lambda>n. Fin (of_nat n)) a) (map (\<lambda>n. Fin (of_nat n)) b) i
     = isAtLeast (drop i a) (drop i b)"
proof (induction "max (length a) (length b) - i" arbitrary: i)
  case 0
  then have "drop i a = []" and "drop i b = []" by simp_all
  moreover have "\<not> i < max (length a) (length b)" using 0 by linarith
  ultimately show ?case by (subst compareVersion_loop.simps) simp
next
  case (Suc n)
  then have lt: "i < max (length a) (length b)" by simp
  have n: "n = max (length a) (length b) - (i + 1)" using Suc.hyps(2) by simp
  have "compareVersion_loop (map (\<lambda>n. Fin (of_nat n)) a) (map (\<lambda>n. Fin (of_nat n)) b) i =
     (if component_at b i < component_at a i then True
      else if component_at a i < component_at b i then False
      else compareVersion_loop (map (\<lambda>n. Fin (of_nat n)) a) (map (\<lambda>n. Fin (of_nat n)) b)
             (i + 1))"
    using lt by (subst compareVersion_loop.simps) (simp add: or_zero_exact Let_def)
  also have "\<dots> = (if component_at b i < component_at a i then True
      else if component_at a i < component_at b i then False
      else isAtLeast (drop (Suc i) a) (drop (Suc i) b))"
    using Suc.hyps(1) [OF n] by simp
  also have "\<dots> = isAtLeast (drop i a) (drop i b)"
    by (rule isAtLeast_drop [OF lt, symmetric])
  finally show ?case .
qed

lemma first_difference_step:
  fixes A B :: "nat \<Rightarrow> nat"
  shows "((\<forall>i. A i = B i) \<or> (\<exists>i. B i < A i \<and> (\<forall>j < i. A j = B j))) \<longleftrightarrow>
         (B 0 < A 0 \<or> (A 0 = B 0 \<and>
            ((\<forall>i. A (Suc i) = B (Suc i))
             \<or> (\<exists>i. B (Suc i) < A (Suc i) \<and> (\<forall>j < i. A (Suc j) = B (Suc j))))))"
  (is "?L \<longleftrightarrow> ?R")
proof
  assume ?L
  then show ?R
  proof
    assume "\<forall>i. A i = B i"
    then show ?R by simp
  next
    assume "\<exists>i. B i < A i \<and> (\<forall>j < i. A j = B j)"
    then obtain i where i: "B i < A i" "\<forall>j < i. A j = B j" by blast
    show ?R
    proof (cases i)
      case 0
      with i show ?thesis by simp
    next
      case (Suc i')
      with i have "A 0 = B 0" by simp
      moreover have "\<forall>j < i'. A (Suc j) = B (Suc j)" using i(2) Suc by simp
      ultimately show ?thesis using i(1) Suc by blast
    qed
  qed
next
  assume ?R
  then consider (gt) "B 0 < A 0"
    | (eq) "A 0 = B 0" "\<forall>i. A (Suc i) = B (Suc i)"
    | (later) i where "A 0 = B 0" "B (Suc i) < A (Suc i)" "\<forall>j < i. A (Suc j) = B (Suc j)"
    by blast
  then show ?L
  proof cases
    case gt
    then have "B 0 < A 0 \<and> (\<forall>j < 0. A j = B j)" by simp
    then show ?thesis by blast
  next
    case eq
    have "A i = B i" for i using eq by (cases i) simp_all
    then show ?thesis by simp
  next
    case later
    have "A j = B j" if "j < Suc i" for j
      using later that by (cases j) simp_all
    with later(2) show ?thesis by blast
  qed
qed

lemma component_at_simps:
  "component_at [] i = 0" "component_at (x # xs) 0 = x"
  "component_at (x # xs) (Suc i) = component_at xs i"
  by (simp_all add: component_at_def)

lemma isAtLeast_first_difference:
  "isAtLeast a b \<longleftrightarrow>
     (\<forall>i. component_at a i = component_at b i)
     \<or> (\<exists>i. component_at b i < component_at a i
            \<and> (\<forall>j < i. component_at a j = component_at b j))"
proof (induction a b rule: isAtLeast.induct)
  case 1
  then show ?case by (simp add: component_at_simps)
next
  case (2 x xs)
  show ?case
    by (subst first_difference_step) (use 2 in \<open>auto simp: component_at_simps\<close>)
next
  case (3 y ys)
  show ?case
    by (subst first_difference_step) (use 3 in \<open>auto simp: component_at_simps\<close>)
next
  case (4 x xs y ys)
  show ?case
    by (subst first_difference_step) (use 4 in \<open>auto simp: component_at_simps\<close>)
qed

lemma Number_js_components:
  assumes "list_all (list_all is_digit) (split_js CHR ''.'' v)"
    and "list_all (\<lambda>n. n \<le> 2 ^ 53) (components v)"
  shows "map (Number_js other) (split_js CHR ''.'' v)
         = map (\<lambda>n. Fin (of_nat n)) (components v)"
proof -
  have "Number_js other s = Fin (of_nat (decimal s))" if "s \<in> set (split_js CHR ''.'' v)" for s
  proof -
    from assms(1) that have "list_all is_digit s" by (simp add: list_all_iff)
    moreover from assms(2) that have "decimal s \<le> 2 ^ 53"
      by (simp add: components_def list_all_iff)
    ultimately show ?thesis by (rule Number_js_exact)
  qed
  then show ?thesis by (simp add: components_def)
qed

subsection \<open>The filters and the recipes\<close>

lemma createFilter_one:
  "createFilter [[Lit p]] ident \<longleftrightarrow>
     CHR 0x00 \<notin> set ident \<and> includes_js (normalizePath ident) p"
  by (simp add: createFilter_def regex_test_Lit)

lemma createFilter_four:
  "createFilter [[Lit p1], [Lit p2], [Lit p3], [Lit p4]] ident \<longleftrightarrow>
     CHR 0x00 \<notin> set ident
     \<and> (includes_js (normalizePath ident) p1 \<or> includes_js (normalizePath ident) p2
        \<or> includes_js (normalizePath ident) p3 \<or> includes_js (normalizePath ident) p4)"
  by (simp add: createFilter_def regex_test_Lit)

lemma export_default_build:
  assumes "isBuild st" and "\<not> skipFix st" and "fixExportDefaultFilter st = Some g" and "g ident"
  shows "export_default_transform R st code ident =
           (case apply_recipe R (selected ident) (new_MagicString code) code of
              Inl e \<Rightarrow> Inl e
            | Inr ms \<Rightarrow> Inr (Some (toString ms)))"
  using assms by (simp add: export_default_transform_def)

text \<open>
  What the switch of the export-default stage does in build mode: it applies the recipe
  of the first of the words \<^verbatim>\<open>checkbox\<close>, \<^verbatim>\<open>back-top\<close>, \<^verbatim>\<open>rate\<close>, \<^verbatim>\<open>result\<close>, in
  this order, that occurs anywhere in the identity, and none when no word occurs; then
  the text leaves the stage as it entered it.
\<close>

lemma switch_takes_first_case:
  assumes "isBuild st" and "\<not> skipFix st" and "fixExportDefaultFilter st = Some g"
  shows "(g ident \<longrightarrow> export_default_transform R st code ident =
            (case apply_recipe R (selected ident) (new_MagicString code) code of
               Inl e \<Rightarrow> Inl e
             | Inr ms \<Rightarrow> Inr (Some (toString ms))))
       \<and> (selected ident = Some Checkbox \<longleftrightarrow> includes_js ident ''checkbox'')
       \<and> (selected ident = Some BackTop \<longleftrightarrow>
            \<not> includes_js ident ''checkbox'' \<and> includes_js ident ''back-top'')
       \<and> (selected ident = Some Rate \<longleftrightarrow>
            \<not> includes_js ident ''checkbox'' \<and> \<not> includes_js ident ''back-top''
            \<and> includes_js ident ''rate'')
       \<and> (selected ident = Some Result \<longleftrightarrow>
            \<not> includes_js ident ''checkbox'' \<and> \<not> includes_js ident ''back-top''
            \<and> \<not> includes_js ident ''rate'' \<and> includes_js ident ''result'')
       \<and> (selected ident = None \<longleftrightarrow>
            \<not> includes_js ident ''checkbox'' \<and> \<not> includes_js ident ''back-top''
            \<and> \<not> includes_js ident ''rate'' \<and> \<not> includes_js ident ''result'')
       \<and> (selected ident = None \<longrightarrow>
            apply_recipe R (selected ident) (new_MagicString code) code
              = Inr (new_MagicString code)
            \<and> (g ident \<longrightarrow> export_default_transform R st code ident = Inr (Some code))
            \<and> run_stage (\<lambda>c. export_default_transform R st c ident) (Inr code) = Inr code)"
proof -
  have a: "export_default_transform R st code ident =
            (case apply_recipe R (selected ident) (new_MagicString code) code of
               Inl e \<Rightarrow> Inl e
             | Inr ms \<Rightarrow> Inr (Some (toString ms)))" if "g ident"
    using export_default_build [OF assms that] .
  have b: "apply_recipe R (selected ident) (new_MagicString code) code
              = Inr (new_MagicString code)
            \<and> (g ident \<longrightarrow> export_default_transform R st code ident = Inr (Some code))
            \<and> run_stage (\<lambda>c. export_default_transform R st c ident) (Inr code) = Inr code"
    if none: "selected ident = None"
  proof -
    have r: "apply_recipe R (selected ident) (new_MagicString code) code
              = Inr (new_MagicString code)"
      using none by (simp add: apply_recipe_def)
    have t: "export_default_transform R st code ident = Inr (Some code)" if "g ident"
      using export_default_build [OF assms that, of R code] r
      by (simp add: toString_def new_MagicString_def)
    have "run_stage (\<lambda>c. export_default_transform R st c ident) (Inr code) = Inr code"
    proof (cases "g ident")
      case True
      with t show ?thesis by (simp add: run_stage_def)
    next
      case False
      with assms show ?thesis by (simp add: run_stage_def export_default_transform_def)
    qed
    with r t show ?thesis by blast
  qed
  have c: "(selected ident = Some Checkbox \<longleftrightarrow> includes_js ident ''checkbox'')
       \<and> (selected ident = Some BackTop \<longleftrightarrow>
            \<not> includes_js ident ''checkbox'' \<and> includes_js ident ''back-top'')
       \<and> (selected ident = Some Rate \<longleftrightarrow>
            \<not> includes_js ident ''checkbox'' \<and> \<not> includes_js ident ''back-top''
            \<and> includes_js ident ''rate'')
       \<and> (selected ident = Some Result \<longleftrightarrow>
            \<not> includes_js ident ''checkbox'' \<and> \<not> includes_js ident ''back-top''
            \<and> \<not> includes_js ident ''rate'' \<and> includes_js ident ''result'')
       \<and> (selected ident = None \<longleftrightarrow>
            \<not> includes_js ident ''checkbox'' \<and> \<not> includes_js ident ''back-top''
            \<and> \<not> includes_js ident ''rate'' \<and> \<not> includes_js ident ''result'')"
    by (simp add: selected_def)
  from a b c show ?thesis by blast
qed

subsection \<open>Resolving and loading a virtual module\<close>

lemma get_substitution_plain:
  "CHR ''$'' \<notin> set replacement \<Longrightarrow> get_substitution matched str position replacement = replacement"
  by (induction matched str position replacement rule: get_substitution.induct) auto

lemma resolveId_plain:
  assumes "CHR ''$'' \<notin> set VirtualPath"
  shows "resolveId VirtualPath (virtual_prefix @ name) = Some (VirtualPath @ ''/'' @ name)"
proof -
  have "indexOf (virtual_prefix @ name) virtual_prefix = Some 0"
    by (rule indexOf_prefix) simp
  moreover have "get_substitution virtual_prefix (virtual_prefix @ name) 0 (VirtualPath @ ''/'')
      = VirtualPath @ ''/''"
    using assms by (intro get_substitution_plain) simp
  ultimately show ?thesis
    by (simp add: resolveId_def startsWith_def replace_string_def)
qed

lemma resolveId_declines:
  "\<not> prefix virtual_prefix ident \<Longrightarrow> resolveId VirtualPath ident = None"
  by (simp add: resolveId_def startsWith_def)

lemma load_js_cases:
  "load_js VirtualPath fs ident = Inr (Some contents) \<longleftrightarrow>
     prefix VirtualPath ident \<and> fs ident = Some (File contents)"
  "load_js VirtualPath fs ident = Inr None \<longleftrightarrow>
     \<not> prefix VirtualPath ident \<or> fs ident = None"
  "load_js VirtualPath fs ident = Inl e \<longleftrightarrow>
     prefix VirtualPath ident \<and> fs ident = Some Directory \<and> e = FsError"
  by (auto simp: load_js_def startsWith_def split: option.splits node.splits)

section \<open>The claims\<close>

subsection \<open>C1: the insertion after the setup anchor\<close>

text \<open>
  Claim C1, amended. Take a text in which the exact signature
  \<^verbatim>\<open>function replaceable(name, icon) {\<close> is the first match of the signature pattern
  and starts at the first occurrence of \<^verbatim>\<open>function replaceable(name, icon)\<close>, and in
  which the text from the end of the signature to the end of the brace scan contains
  \<^verbatim>\<open>setup() {\<close>. With the session not skipped and the identity accepted by the
  filter, the transform returns the text with the parameter of that signature renamed to
  \<^verbatim>\<open>_icon_\<close> and the binding inserted at the offset that is the start of the body
  slice plus the index and the length of the first match of the setup pattern in the
  slice. Every character of the input is kept, in its order.
\<close>

theorem insertion_after_setup:
  assumes "\<not> skipFix st" and "fixReplaceableFilter st = Some f" and "f ident"
    and code: "code = pre @ ''function replaceable(name, icon) {'' @ rest"
    and first_match: "regex_exec replaceable_re code = Some (length pre, 34)"
    and first_literal: "indexOf code replaceable_literal = Some (length pre)"
    and nested: "includes_js (slice code (length pre + 34)
                               (snd (brace_scan code 1 (length pre + 34)))) ''setup() {''"
  shows "\<exists>m k. regex_exec setup_re
                 (slice code (length pre + 34) (snd (brace_scan code 1 (length pre + 34))))
               = Some (m, k)
           \<and> length pre + 34 + m + k \<le> length code
           \<and> replaceable_transform st code ident
             = Inr (Some (pre @ ''function replaceable(name, _icon_) {''
                          @ take (m + k) rest @ icon_binding @ drop (m + k) rest))"
proof -
  define body where
    "body = slice code (length pre + 34) (snd (brace_scan code 1 (length pre + 34)))"
  from nested obtain a b where ab: "body = a @ ''setup() {'' @ b"
    unfolding body_def [symmetric] includes_js_iff by blast
  then have "drop (length a) body = ''setup() {'' @ b" by simp
  then have "seq_match setup_re (drop (length a) body) = Some b"
    by (simp only: setup_re_at_literal)
  then have "seq_match setup_re (drop (length a) body) \<noteq> None" by simp
  moreover have "length a \<le> length body" using ab by simp
  ultimately obtain m k where mk: "regex_exec setup_re body = Some (m, k)"
    using regex_exec_finds by blast
  have "length body \<le> length code - (length pre + 34)"
    by (simp add: body_def slice_def)
  with regex_exec_Some(1) [OF mk] have bound: "m + k \<le> length code - (length pre + 34)"
    by simp
  have len: "length code = length pre + 34 + length rest" by (simp add: code)
  with bound have mk_rest: "m + k \<le> length rest" by simp
  have ms: "replace_ms (new_MagicString code) replaceable_literal replaceable_renamed
             = Inr \<lparr>original = code, ms_intro = [], ms_outro = [],
                    chunks = renamed_chunks code (length pre) (length pre + 32)
                               replaceable_renamed\<rparr>"
    using replace_ms_present [OF first_literal literal_facts(1, 2)]
    by (simp add: literal_facts(3))
  have "length pre < length pre + 32" by simp
  moreover have "length pre + 32 < length pre + 34 + m + k" by simp
  moreover have "length pre + 34 + m + k \<le> length code" using len mk_rest by simp
  ultimately obtain ms' where
    app: "appendLeft \<lparr>original = code, ms_intro = [], ms_outro = [],
                      chunks = renamed_chunks code (length pre) (length pre + 32)
                                 replaceable_renamed\<rparr>
            (length pre + 34 + m + k) icon_binding = Inr ms'"
    and str: "toString ms' = take (length pre) code @ replaceable_renamed
               @ take (length pre + 34 + m + k - (length pre + 32)) (drop (length pre + 32) code)
               @ icon_binding @ drop (length pre + 34 + m + k) code"
    using appendLeft_renamed by blast
  define sg where "sg = ''function replaceable(name, icon) {''"
  have lsg: "length sg = 34" and dsg: "drop 32 sg = '' {''" by (simp_all add: sg_def)
  have code': "code = pre @ sg @ rest" by (simp add: code sg_def)
  have t1: "take (length pre) code = pre" by (simp add: code')
  have d1: "drop (length pre + 32) code = '' {'' @ rest" by (simp add: code' lsg dsg)
  have t2: "take (length pre + 34 + m + k - (length pre + 32)) ('' {'' @ rest)
              = '' {'' @ take (m + k) rest"
    by simp
  have d2: "drop (length pre + 34 + m + k) code = drop (m + k) rest"
    by (simp add: code' lsg)
  have out: "toString ms' = pre @ ''function replaceable(name, _icon_) {''
               @ take (m + k) rest @ icon_binding @ drop (m + k) rest"
    unfolding str t1 d1 t2 d2 by (simp add: replaceable_renamed_def)
  have "replaceable_transform st code ident = Inr (Some (toString ms'))"
    using first_match mk app
    by (simp add: replaceable_transform_accepting [OF assms(1-3) ms] body_def [symmetric])
  then have res: "replaceable_transform st code ident
      = Inr (Some (pre @ ''function replaceable(name, _icon_) {''
                   @ take (m + k) rest @ icon_binding @ drop (m + k) rest))"
    by (simp only: out)
  from mk have mk': "regex_exec setup_re
      (slice code (length pre + 34) (snd (brace_scan code 1 (length pre + 34)))) = Some (m, k)"
    by (simp only: body_def)
  from mk' \<open>length pre + 34 + m + k \<le> length code\<close> res show ?thesis
    by (intro exI conjI)
qed

theorem insertion_after_setup_witness:
  "regex_exec replaceable_re
      (''export '' @ ''function replaceable(name, icon) {'' @ '' setup() { return icon } }'')
     = Some (7, 34)
   \<and> replaceable_transform (config initial_session ''serve'')
      (''export '' @ ''function replaceable(name, icon) {'' @ '' setup() { return icon } }'')
      ''/app/node_modules/.vite/deps/naive-ui.js''
     = Inr (Some (''export function replaceable(name, _icon_) { setup() {''
                  @ CHR 0x0A # ''  const icon = fixNaiveuiIconCloneVnode(_icon_);''
                  @ '' return icon } }''))"
proof -
  define dev where "dev = config initial_session ''serve''"
  define f where "f = createFilter [[Lit ''/.vite/deps/naive-ui.js'']]"
  define W where
    "W = ''export '' @ ''function replaceable(name, icon) {'' @ '' setup() { return icon } }''"
  have s: "\<not> skipFix dev" and fl: "fixReplaceableFilter dev = Some f"
    by (simp_all add: dev_def f_def config_def initial_session_def)
  have acc: "f ''/app/node_modules/.vite/deps/naive-ui.js''"
    unfolding f_def by code_simp
  have fm: "regex_exec replaceable_re W = Some (length ''export '', 34)"
    unfolding W_def by code_simp
  have fi: "indexOf W replaceable_literal = Some (length ''export '')"
    unfolding W_def by code_simp
  have body: "slice W (length ''export '' + 34) (snd (brace_scan W 1 (length ''export '' + 34)))
                = '' setup() { return icon } }''"
    unfolding W_def by code_simp
  have inc: "includes_js '' setup() { return icon } }'' ''setup() {''" by code_simp
  have ex: "regex_exec setup_re '' setup() { return icon } }'' = Some (1, 9)" by code_simp
  from insertion_after_setup [OF s fl acc W_def fm fi] body inc
  obtain m k where mk: "regex_exec setup_re '' setup() { return icon } }'' = Some (m, k)"
    and out: "replaceable_transform dev W ''/app/node_modules/.vite/deps/naive-ui.js''
       = Inr (Some (''export '' @ ''function replaceable(name, _icon_) {''
                          @ take (m + k) '' setup() { return icon } }'' @ icon_binding
                          @ drop (m + k) '' setup() { return icon } }''))"
    by auto
  from mk ex have "m = 1" and "k = 9" by simp_all
  with out have "replaceable_transform dev W ''/app/node_modules/.vite/deps/naive-ui.js''
     = Inr (Some (''export function replaceable(name, _icon_) { setup() {''
                  @ CHR 0x0A # ''  const icon = fixNaiveuiIconCloneVnode(_icon_);''
                  @ '' return icon } }''))"
    by (simp add: icon_binding_def)
  moreover have "regex_exec replaceable_re W = Some (7, 34)" using fm by simp
  ultimately show ?thesis unfolding dev_def W_def by blast
qed

text \<open>
  The claim as it was stated fails when another match of the signature pattern comes
  first: the text below contains the exact signature, and \<^verbatim>\<open>setup() {\<close> inside the
  body of that function, but the insertion is looked for in the body of the first
  function, which has no setup, and no binding is inserted.
\<close>

theorem decoy_signature_counterexample:
  "indexOf ''function replaceable(a, icon) {} function replaceable(name, icon) { setup() { } }''
       ''function replaceable(name, icon) {'' = Some 33
   \<and> slice ''function replaceable(a, icon) {} function replaceable(name, icon) { setup() { } }'' 67
        (snd (brace_scan
          ''function replaceable(a, icon) {} function replaceable(name, icon) { setup() { } }'' 1 67))
      = '' setup() { } }''
   \<and> includes_js '' setup() { } }'' ''setup() {''
   \<and> replaceable_transform (config initial_session ''serve'')
        ''function replaceable(a, icon) {} function replaceable(name, icon) { setup() { } }''
        ''/app/node_modules/.vite/deps/naive-ui.js''
      = Inr (Some
          ''function replaceable(a, icon) {} function replaceable(name, _icon_) { setup() { } }'')"
  by code_simp

subsection \<open>C2: the brace scan\<close>

text \<open>
  Claim C2, amended. For every text and every start index within it, taken as the
  position just after an opening brace that counts as depth 1: the scan adds 1 to the
  depth at each opening brace and takes 1 from it at each closing brace. When some
  closing brace brings the depth to zero, the scan ends with the depth 0 and the index
  just after the first such brace, which is what \<open>findMatchingClose\<close> returns. When the
  text ends first, the scan gives no signal: it ends with the index equal to the length
  of the text and the depth still positive, and the transform reads the body up to the
  end of the text. On \<^verbatim>\<open>{ a(); { b(); } c(); }\<close> from index 1 the scan ends at 22, just
  after the last brace.
\<close>

theorem brace_scan_matching_close:
  assumes "startIndex \<le> length text"
  shows "(\<forall>r. findMatchingClose text startIndex = Some r
              \<longrightarrow> brace_scan text 1 startIndex = (0, r))
       \<and> (findMatchingClose text startIndex = None
            \<longrightarrow> snd (brace_scan text 1 startIndex) = length text
              \<and> 0 < fst (brace_scan text 1 startIndex)
              \<and> fst (brace_scan text 1 startIndex) = depth_at text startIndex (length text))
       \<and> (\<forall>r. findMatchingClose text startIndex = Some r \<longleftrightarrow>
              (startIndex < r \<and> r \<le> length text \<and> depth_at text startIndex r = 0
               \<and> (\<forall>j. startIndex \<le> j \<and> j < r \<longrightarrow> 0 < depth_at text startIndex j)))
       \<and> brace_scan ''{ a(); { b(); } c(); }'' 1 1 = (0, 22)"
proof -
  have ref: "brace_scan text 1 startIndex =
       (case findMatchingClose text startIndex of
          Some r \<Rightarrow> (0, r)
        | None \<Rightarrow> (1 + balance (drop startIndex text), length text))"
    unfolding findMatchingClose_def using assms by (intro brace_scan_refines) simp_all
  have a: "\<forall>r. findMatchingClose text startIndex = Some r
              \<longrightarrow> brace_scan text 1 startIndex = (0, r)"
    using ref by simp
  have b: "snd (brace_scan text 1 startIndex) = length text
              \<and> 0 < fst (brace_scan text 1 startIndex)
              \<and> fst (brace_scan text 1 startIndex) = depth_at text startIndex (length text)"
    if none: "findMatchingClose text startIndex = None"
  proof -
    have "0 < 1 + balance (take (length (drop startIndex text)) (drop startIndex text))"
      using none unfolding findMatchingClose_def
      by (intro findMatchingClose_from_None [of 1 _ startIndex]) simp_all
    moreover have "depth_at text startIndex (length text) = 1 + balance (drop startIndex text)"
      by (simp add: depth_at_def slice_def)
    ultimately show ?thesis using ref none by simp
  qed
  have c: "\<forall>r. findMatchingClose text startIndex = Some r \<longleftrightarrow>
              (startIndex < r \<and> r \<le> length text \<and> depth_at text startIndex r = 0
               \<and> (\<forall>j. startIndex \<le> j \<and> j < r \<longrightarrow> 0 < depth_at text startIndex j))"
    using findMatchingClose_char [OF assms] by blast
  have d: "brace_scan ''{ a(); { b(); } c(); }'' 1 1 = (0, 22)"
    by code_simp
  from a b c d show ?thesis by blast
qed

theorem brace_scan_matching_close_witness:
  "(1::nat) \<le> length ''{ a(); { b(); } c(); }''
   \<and> findMatchingClose ''{ a(); { b(); } c(); }'' 1 = Some 22
   \<and> brace_scan ''{ a(); { b(); } c(); }'' 1 1 = (0, 22)
   \<and> findMatchingClose ''{ a(); { b();'' 1 = None
   \<and> snd (brace_scan ''{ a(); { b();'' 1 1) = 13"
proof -
  have f1: "findMatchingClose ''{ a(); { b(); } c(); }'' 1 = Some 22" by code_simp
  have f2: "findMatchingClose ''{ a(); { b();'' 1 = None" by code_simp
  have l1: "(1::nat) \<le> length ''{ a(); { b(); } c(); }''" by simp
  have l2: "(1::nat) \<le> length ''{ a(); { b();''" by simp
  from brace_scan_matching_close [OF l1] f1
  have "brace_scan ''{ a(); { b(); } c(); }'' 1 1 = (0, 22)" by blast
  moreover from brace_scan_matching_close [OF l2] f2
  have "snd (brace_scan ''{ a(); { b();'' 1 1) = length ''{ a(); { b();''" by blast
  ultimately show ?thesis using f1 f2 by simp
qed

text \<open>
  The claim as it was stated fails on a text that ends inside the body: the scanner of
  the specification finds nothing, the scan of the code ends with an index (the same
  index 3 at which it ends on a text of three characters whose brace is closed), and the
  transform inserts the binding into a function that is never closed.
\<close>

theorem exhausted_scan_counterexample:
  "findMatchingClose ''{ a'' 1 = None
   \<and> brace_scan ''{ a'' 1 1 = (1, 3)
   \<and> brace_scan ''{ }'' 1 1 = (0, 3)
   \<and> findMatchingClose ''function replaceable(name, icon) { setup() {'' 34 = None
   \<and> replaceable_transform (config initial_session ''serve'')
        ''function replaceable(name, icon) { setup() {''
        ''/app/node_modules/.vite/deps/naive-ui.js''
      = Inr (Some (''function replaceable(name, _icon_) { setup() {''
                   @ CHR 0x0A # ''  const icon = fixNaiveuiIconCloneVnode(_icon_);''))"
  by code_simp

subsection \<open>C3: the comparison of versions\<close>

text \<open>
  Claim C3, amended. For all versions \<open>v\<close> and \<open>t\<close> whose components, between the dots,
  are strings of decimal digits (an empty component counts as 0, as \<^verbatim>\<open>Number\<close> reads
  it) with values up to \<open>2 ^ 53\<close>, which a double holds exactly: \<^verbatim>\<open>compareVersion\<close>
  compares the numeric components from the most significant on, a missing trailing
  component counts as 0, and the result is true exactly when all components are equal
  or the component of \<open>v\<close> is the greater one at the first difference. The four
  examples of the specification hold.
\<close>

theorem compareVersion_compares_components:
  assumes "list_all (list_all is_digit) (split_js CHR ''.'' v)"
    and "list_all (list_all is_digit) (split_js CHR ''.'' t)"
    and "list_all (\<lambda>n. n \<le> 2 ^ 53) (components v)"
    and "list_all (\<lambda>n. n \<le> 2 ^ 53) (components t)"
  shows "compareVersion other v t = isAtLeast (components v) (components t)
       \<and> (isAtLeast (components v) (components t) \<longleftrightarrow>
            (\<forall>i. component_at (components v) i = component_at (components t) i)
            \<or> (\<exists>i. component_at (components t) i < component_at (components v) i
                   \<and> (\<forall>j < i. component_at (components v) j = component_at (components t) j)))
       \<and> compareVersion other ''2.40.4'' ''2.40.4''
       \<and> compareVersion other ''2.41.0'' ''2.40.4''
       \<and> \<not> compareVersion other ''2.40.3'' ''2.40.4''
       \<and> compareVersion other ''2.40'' ''2.40.0''"
proof -
  have "compareVersion other v t
      = compareVersion_loop (map (\<lambda>n. Fin (of_nat n)) (components v))
          (map (\<lambda>n. Fin (of_nat n)) (components t)) 0"
    unfolding compareVersion_def
    by (simp only: Number_js_components [OF assms(1, 3)] Number_js_components [OF assms(2, 4)])
  also have "\<dots> = isAtLeast (components v) (components t)"
    by (simp add: compareVersion_loop_exact)
  finally have a: "compareVersion other v t = isAtLeast (components v) (components t)" .
  have e1: "compareVersion other ''2.40.4'' ''2.40.4''" by (simp add: version_eval)
  have e2: "compareVersion other ''2.41.0'' ''2.40.4''" by (simp add: version_eval)
  have e3: "\<not> compareVersion other ''2.40.3'' ''2.40.4''" by (simp add: version_eval)
  have e4: "compareVersion other ''2.40'' ''2.40.0''" by (simp add: version_eval)
  from a isAtLeast_first_difference [of "components v" "components t"] e1 e2 e3 e4
  show ?thesis by blast
qed

theorem compareVersion_compares_components_witness:
  "components ''2.40'' = [2, 40] \<and> components ''2.40.0'' = [2, 40, 0]
   \<and> compareVersion only_digits ''2.40'' ''2.40.0'' = isAtLeast [2, 40] [2, 40, 0]
   \<and> components ''10.2'' = [10, 2] \<and> components ''9.12'' = [9, 12]
   \<and> compareVersion only_digits ''10.2'' ''9.12''
   \<and> \<not> compareVersion only_digits ''9.12'' ''10.2''"
proof -
  have d: "list_all (list_all is_digit) (split_js CHR ''.'' ''2.40'')"
    "list_all (list_all is_digit) (split_js CHR ''.'' ''2.40.0'')"
    "list_all (list_all is_digit) (split_js CHR ''.'' ''10.2'')"
    "list_all (list_all is_digit) (split_js CHR ''.'' ''9.12'')"
    by (simp_all add: is_digit_def)
  have c: "components ''2.40'' = [2, 40]" "components ''2.40.0'' = [2, 40, 0]"
    "components ''10.2'' = [10, 2]" "components ''9.12'' = [9, 12]"
    by (simp_all add: components_def decimal_def)
  have s: "list_all (\<lambda>n. n \<le> 2 ^ 53) (components ''2.40'')"
    "list_all (\<lambda>n. n \<le> 2 ^ 53) (components ''2.40.0'')"
    "list_all (\<lambda>n. n \<le> 2 ^ 53) (components ''10.2'')"
    "list_all (\<lambda>n. n \<le> 2 ^ 53) (components ''9.12'')"
    unfolding c by simp_all
  from compareVersion_compares_components [OF d(1, 2) s(1, 2), of only_digits]
    compareVersion_compares_components [OF d(3, 4) s(3, 4), of only_digits]
    compareVersion_compares_components [OF d(4, 3) s(4, 3), of only_digits]
  show ?thesis unfolding c by simp
qed

text \<open>
  The claim as it was stated fails for components beyond \<open>2 ^ 53\<close>: \<^verbatim>\<open>Number\<close>
  rounds 9007199254740993 to the double 9007199254740992, so the two versions below
  compare as equal, although the second component of the first is the smaller one.
\<close>

theorem large_component_counterexample:
  "list_all (list_all is_digit) (split_js CHR ''.'' ''2.9007199254740992'')
   \<and> list_all (list_all is_digit) (split_js CHR ''.'' ''2.9007199254740993'')
   \<and> components ''2.9007199254740992'' = [2, 9007199254740992]
   \<and> components ''2.9007199254740993'' = [2, 9007199254740993]
   \<and> \<not> isAtLeast [2, 9007199254740992] [2, 9007199254740993]
   \<and> compareVersion only_digits ''2.9007199254740992'' ''2.9007199254740993''"
  by (simp add: version_eval components_def)

subsection \<open>C4: the version gate decides the session\<close>

text \<open>
  Claim C4. For a session whose flag is not set yet, the flag \<^verbatim>\<open>skipFix\<close> is set after
  \<^verbatim>\<open>configResolved\<close> exactly when \<^verbatim>\<open>getNaiveUIVersion\<close> returns a non-empty string
  and \<^verbatim>\<open>compareVersion\<close> of it and \<^verbatim>\<open>'2.40.4'\<close> is true. When the manifest is not
  resolved, read or parsed, \<^verbatim>\<open>getNaiveUIVersion\<close> returns null and throws nothing, the
  hook leaves the session as it is, and the flag stays false.
\<close>

theorem skip_flag_iff_version_at_least:
  assumes "\<not> skipFix st"
  shows "(skipFix_after world other st rootDir \<longleftrightarrow>
           (\<exists>v. getNaiveUIVersion world rootDir = JStr v \<and> v \<noteq> []
                \<and> compareVersion other v FIXED_VERSION))
       \<and> ((\<forall>v. world (if suffix ''/'' rootDir then rootDir else rootDir @ ''/'') \<noteq> Parsed v)
            \<longrightarrow> getNaiveUIVersion world rootDir = JNull
              \<and> configResolved world other st rootDir = Inr st
              \<and> \<not> skipFix_after world other st rootDir)"
proof -
  have a: "skipFix_after world other st rootDir \<longleftrightarrow>
           (\<exists>v. getNaiveUIVersion world rootDir = JStr v \<and> v \<noteq> []
                \<and> compareVersion other v FIXED_VERSION)"
    using assms
    by (cases "getNaiveUIVersion world rootDir")
       (auto simp: skipFix_after_def configResolved_def Let_def)
  have b: "getNaiveUIVersion world rootDir = JNull
              \<and> configResolved world other st rootDir = Inr st
              \<and> \<not> skipFix_after world other st rootDir"
    if "\<forall>v. world (if suffix ''/'' rootDir then rootDir else rootDir @ ''/'') \<noteq> Parsed v"
  proof -
    have "getNaiveUIVersion world rootDir = JNull"
      using that unfolding getNaiveUIVersion_def
      by (cases "world (if suffix ''/'' rootDir then rootDir else rootDir @ ''/'')") simp_all
    then show ?thesis
      using assms by (simp add: skipFix_after_def configResolved_def)
  qed
  from a b show ?thesis by blast
qed

theorem skip_flag_iff_version_at_least_witness:
  "\<not> skipFix initial_session
   \<and> skipFix_after (\<lambda>p. Parsed (JStr ''2.41.0'')) only_digits initial_session ''/app''
   \<and> \<not> skipFix_after (\<lambda>p. NotResolved) only_digits initial_session ''/app''
   \<and> configResolved (\<lambda>p. NotResolved) only_digits initial_session ''/app''
       = Inr initial_session"
  using skip_flag_iff_version_at_least
      [of initial_session "\<lambda>p. Parsed (JStr ''2.41.0'')" only_digits "''/app''"]
    skip_flag_iff_version_at_least [of initial_session "\<lambda>p. NotResolved" only_digits "''/app''"]
  by (simp add: initial_session_def getNaiveUIVersion_def version_2_41_0)

subsection \<open>C5: a missing anchor\<close>

text \<open>
  Claim C5. In the transform of the replaceable stage, with the session not skipped and
  the identity accepted by the filter: when the signature pattern has no match, or the
  setup pattern has no match in the text between the end of the signature and the end
  of the scan, nothing is inserted and nothing is raised; the result is the text after
  the literal replacement alone. When the literal does not occur either, the result is
  the input.
\<close>

theorem missing_anchor_skips_insertion:
  assumes "\<not> skipFix st" and "fixReplaceableFilter st = Some f" and "f ident"
    and "regex_exec replaceable_re code = None
         \<or> (\<exists>startIdx n. regex_exec replaceable_re code = Some (startIdx, n)
               \<and> regex_exec setup_re
                    (slice code (startIdx + n) (snd (brace_scan code 1 (startIdx + n)))) = None)"
  shows "replaceable_transform st code ident =
           Inr (Some (case indexOf code replaceable_literal of
                        None \<Rightarrow> code
                      | Some p \<Rightarrow> take p code @ replaceable_renamed
                                  @ drop (p + length replaceable_literal) code))
         \<and> (indexOf code replaceable_literal = None
              \<longrightarrow> replaceable_transform st code ident = Inr (Some code))"
proof -
  from toString_replace_ms [OF literal_facts(1, 2), of code] obtain ms
    where ms: "replace_ms (new_MagicString code) replaceable_literal replaceable_renamed = Inr ms"
      and str: "toString ms = (case indexOf code replaceable_literal of None \<Rightarrow> code
                 | Some p \<Rightarrow> take p code @ replaceable_renamed
                     @ drop (p + length replaceable_literal) code)"
    by blast
  have "replaceable_transform st code ident = Inr (Some (toString ms))"
    using assms(4) by (auto simp: replaceable_transform_accepting [OF assms(1-3) ms])
  with str show ?thesis by simp
qed

theorem missing_anchor_skips_insertion_witness:
  "replaceable_transform (config initial_session ''serve'')
      ''function replaceable(name, icon) { render() { } }''
      ''/app/node_modules/.vite/deps/naive-ui.js''
     = Inr (Some ''function replaceable(name, _icon_) { render() { } }'')
   \<and> replaceable_transform (config initial_session ''serve'')
      ''const a = { b: 1 }''
      ''/app/node_modules/.vite/deps/naive-ui.js''
     = Inr (Some ''const a = { b: 1 }'')"
proof -
  define dev where "dev = config initial_session ''serve''"
  define f where "f = createFilter [[Lit ''/.vite/deps/naive-ui.js'']]"
  have s: "\<not> skipFix dev" and fl: "fixReplaceableFilter dev = Some f"
    by (simp_all add: dev_def f_def config_def initial_session_def)
  have acc: "f ''/app/node_modules/.vite/deps/naive-ui.js''"
    unfolding f_def by code_simp
  have a1: "regex_exec replaceable_re ''function replaceable(name, icon) { render() { } }''
              = Some (0, 34)" by code_simp
  have a2: "regex_exec setup_re
              (slice ''function replaceable(name, icon) { render() { } }'' (0 + 34)
                (snd (brace_scan ''function replaceable(name, icon) { render() { } }'' 1 (0 + 34))))
              = None" by code_simp
  have i1: "indexOf ''function replaceable(name, icon) { render() { } }'' replaceable_literal
              = Some 0" by code_simp
  have b1: "regex_exec replaceable_re ''const a = { b: 1 }'' = None" by code_simp
  have i2: "indexOf ''const a = { b: 1 }'' replaceable_literal = None" by code_simp
  from a1 a2 have h1: "regex_exec replaceable_re ''function replaceable(name, icon) { render() { } }'' = None
         \<or> (\<exists>startIdx n. regex_exec replaceable_re ''function replaceable(name, icon) { render() { } }'' = Some (startIdx, n)
               \<and> regex_exec setup_re
                    (slice ''function replaceable(name, icon) { render() { } }'' (startIdx + n) (snd (brace_scan ''function replaceable(name, icon) { render() { } }'' 1 (startIdx + n)))) = None)"
    by blast
  from b1 have h2: "regex_exec replaceable_re ''const a = { b: 1 }'' = None
         \<or> (\<exists>startIdx n. regex_exec replaceable_re ''const a = { b: 1 }'' = Some (startIdx, n)
               \<and> regex_exec setup_re
                    (slice ''const a = { b: 1 }'' (startIdx + n) (snd (brace_scan ''const a = { b: 1 }'' 1 (startIdx + n)))) = None)"
    by blast
  from missing_anchor_skips_insertion [OF s fl acc h1] i1
  have "replaceable_transform dev ''function replaceable(name, icon) { render() { } }''
      ''/app/node_modules/.vite/deps/naive-ui.js''
     = Inr (Some ''function replaceable(name, _icon_) { render() { } }'')"
    by (simp add: replaceable_renamed_def replaceable_literal_def)
  moreover from missing_anchor_skips_insertion [OF s fl acc h2] i2
  have "replaceable_transform dev ''const a = { b: 1 }''
      ''/app/node_modules/.vite/deps/naive-ui.js'' = Inr (Some ''const a = { b: 1 }'')"
    by simp
  ultimately show ?thesis unfolding dev_def by simp
qed

subsection \<open>C6: a skipped session changes no text\<close>

text \<open>
  Claim C6. When the flag \<^verbatim>\<open>skipFix\<close> is set, each of the three transforms returns
  nothing, for every text and every identity, so the text that leaves the three stages
  is the text that entered them.
\<close>

theorem skip_declines_every_stage:
  assumes "skipFix st"
  shows "pre_transform st code ident = Inr None
       \<and> replaceable_transform st code ident = Inr None
       \<and> export_default_transform R st code ident = Inr None
       \<and> pipeline R st code ident = Inr code"
  using assms
  by (simp add: pre_transform_def replaceable_transform_def export_default_transform_def
      pipeline_def run_stage_def)

theorem skip_declines_every_stage_witness:
  "configResolved (\<lambda>p. Parsed (JStr ''2.41.0'')) only_digits (config initial_session ''build'')
       ''/app''
     = Inr ((config initial_session ''build'')\<lparr>skipFix := True\<rparr>)
   \<and> skipFix ((config initial_session ''build'')\<lparr>skipFix := True\<rparr>)
   \<and> pipeline no_recipes ((config initial_session ''build'')\<lparr>skipFix := True\<rparr>)
         ''function replaceable(name, icon) { setup() { } }''
         ''/app/node_modules/naive-ui/es/_internal/icons/replaceable.mjs''
       = Inr ''function replaceable(name, icon) { setup() { } }''"
  using skip_declines_every_stage [of "(config initial_session ''build'')\<lparr>skipFix := True\<rparr>"
      "''function replaceable(name, icon) { setup() { } }''"
      "''/app/node_modules/naive-ui/es/_internal/icons/replaceable.mjs''" no_recipes]
  by (simp add: configResolved_def getNaiveUIVersion_def version_2_41_0)

subsection \<open>C7: the filters of the two modes\<close>

text \<open>
  Claim C7, amended. In development mode both filters accept exactly the identities
  without a NUL character that, with backslashes read as slashes, contain
  \<^verbatim>\<open>/.vite/deps/naive-ui.js\<close>. In build mode the replaceable filter accepts exactly
  those that contain \<^verbatim>\<open>/naive-ui/es/_internal/icons/replaceable\<close>, and the export-default
  filter exactly those that contain one of the four component paths. So the aggregate
  cache path is accepted by both filters in development mode, and by neither in build
  mode unless it also contains one of the paths of the build mode.
\<close>

theorem filters_by_mode:
  "(accepts (fixReplaceableFilter (config st ''serve'')) ident \<longleftrightarrow>
      CHR 0x00 \<notin> set ident \<and> includes_js (normalizePath ident) ''/.vite/deps/naive-ui.js'')
   \<and> (accepts (fixExportDefaultFilter (config st ''serve'')) ident \<longleftrightarrow>
      CHR 0x00 \<notin> set ident \<and> includes_js (normalizePath ident) ''/.vite/deps/naive-ui.js'')
   \<and> (accepts (fixReplaceableFilter (config st ''build'')) ident \<longleftrightarrow>
      CHR 0x00 \<notin> set ident
      \<and> includes_js (normalizePath ident) ''/naive-ui/es/_internal/icons/replaceable'')
   \<and> (accepts (fixExportDefaultFilter (config st ''build'')) ident \<longleftrightarrow>
      CHR 0x00 \<notin> set ident
      \<and> (includes_js (normalizePath ident) ''/naive-ui/es/checkbox/src/Checkbox.mjs''
         \<or> includes_js (normalizePath ident) ''/naive-ui/es/back-top/src/BackTop.mjs''
         \<or> includes_js (normalizePath ident) ''/naive-ui/es/rate/src/Rate.mjs''
         \<or> includes_js (normalizePath ident) ''/naive-ui/es/result/src/Result.mjs''))"
  by (simp add: accepts_def config_def createFilter_one createFilter_four)

theorem filters_by_mode_witness:
  "accepts (fixReplaceableFilter (config initial_session ''serve''))
      ''/app/node_modules/.vite/deps/naive-ui.js''
   \<and> accepts (fixExportDefaultFilter (config initial_session ''serve''))
      ''/app/node_modules/.vite/deps/naive-ui.js''
   \<and> \<not> accepts (fixReplaceableFilter (config initial_session ''build''))
      ''/app/node_modules/.vite/deps/naive-ui.js''
   \<and> \<not> accepts (fixExportDefaultFilter (config initial_session ''build''))
      ''/app/node_modules/.vite/deps/naive-ui.js''"
proof -
  have n: "CHR 0x00 \<notin> set ''/app/node_modules/.vite/deps/naive-ui.js''" by simp
  have p: "normalizePath ''/app/node_modules/.vite/deps/naive-ui.js''
             = ''/app/node_modules/.vite/deps/naive-ui.js''" by code_simp
  have i: "includes_js ''/app/node_modules/.vite/deps/naive-ui.js'' ''/.vite/deps/naive-ui.js''"
    "\<not> includes_js ''/app/node_modules/.vite/deps/naive-ui.js''
          ''/naive-ui/es/_internal/icons/replaceable''"
    "\<not> includes_js ''/app/node_modules/.vite/deps/naive-ui.js''
          ''/naive-ui/es/checkbox/src/Checkbox.mjs''"
    "\<not> includes_js ''/app/node_modules/.vite/deps/naive-ui.js''
          ''/naive-ui/es/back-top/src/BackTop.mjs''"
    "\<not> includes_js ''/app/node_modules/.vite/deps/naive-ui.js''
          ''/naive-ui/es/rate/src/Rate.mjs''"
    "\<not> includes_js ''/app/node_modules/.vite/deps/naive-ui.js''
          ''/naive-ui/es/result/src/Result.mjs''"
    by code_simp+
  from filters_by_mode [of initial_session "''/app/node_modules/.vite/deps/naive-ui.js''"]
  show ?thesis unfolding p using n i by blast
qed

text \<open>
  The claim as it was stated fails for a cache path that lies below a directory whose
  name contains a path of the build mode: it matches the pattern of the cache file, and
  the replaceable filter of the build mode accepts it.
\<close>

theorem cache_path_counterexample:
  "regex_test [Lit ''/.vite/deps/naive-ui.js'']
      ''/srv/naive-ui/es/_internal/icons/replaceable-demo/node_modules/.vite/deps/naive-ui.js''
   \<and> accepts (fixReplaceableFilter (config initial_session ''serve''))
      ''/srv/naive-ui/es/_internal/icons/replaceable-demo/node_modules/.vite/deps/naive-ui.js''
   \<and> accepts (fixReplaceableFilter (config initial_session ''build''))
      ''/srv/naive-ui/es/_internal/icons/replaceable-demo/node_modules/.vite/deps/naive-ui.js''"
  by code_simp

subsection \<open>C8: the choice of a recipe in build mode\<close>

text \<open>
  Claim C8 says that in build mode the export-default stage selects the recipe of a
  component exactly when the identity contains the word of that component
  (\<^verbatim>\<open>checkbox\<close>, \<^verbatim>\<open>back-top\<close>, \<^verbatim>\<open>rate\<close>, \<^verbatim>\<open>result\<close>). The switch looks for the
  words anywhere in the identity, in this order, and takes the first that occurs.
  Evaluated for the file of the result component of a project below a directory
  \<^verbatim>\<open>corporate\<close>: the filter accepts the identity, the identity contains \<^verbatim>\<open>result\<close>,
  and the recipe of the rate component is applied, because \<^verbatim>\<open>corporate\<close> contains
  \<^verbatim>\<open>rate\<close>. For the same file below \<^verbatim>\<open>/app\<close> the recipe of the result component is
  applied.
\<close>

theorem result_file_gets_rate_recipe:
  "accepts (fixExportDefaultFilter (config initial_session ''build''))
      ''/home/dev/corporate/node_modules/naive-ui/es/result/src/Result.mjs''
   \<and> includes_js ''/home/dev/corporate/node_modules/naive-ui/es/result/src/Result.mjs'' ''result''
   \<and> selected ''/home/dev/corporate/node_modules/naive-ui/es/result/src/Result.mjs'' = Some Rate
   \<and> export_default_transform naming_recipes (config initial_session ''build'')
        ''export default {}''
        ''/home/dev/corporate/node_modules/naive-ui/es/result/src/Result.mjs''
      = Inr (Some ''/*rate*/export default {}'')
   \<and> export_default_transform naming_recipes (config initial_session ''build'')
        ''export default {}''
        ''/app/node_modules/naive-ui/es/result/src/Result.mjs''
      = Inr (Some ''/*result*/export default {}'')"
  by code_simp

subsection \<open>C9: the virtual modules\<close>

text \<open>
  Claim C9 says that \<^verbatim>\<open>resolveId\<close> maps every identity that begins with
  \<^verbatim>\<open>virtual:fixNaiveuiIcon-path:\<close> to the directory of the virtual modules joined with
  the rest of the identity. The code hands that directory to \<^verbatim>\<open>String.prototype.replace\<close>
  as the replacement text, where a dollar sign starts a pattern. Evaluated for a module
  installed below a directory named \<^verbatim>\<open>$&\<close>, the identity of the helper resolves to a
  path in which the prefix stands for the name of that directory; for a directory
  without a dollar sign it resolves as the claim says.
\<close>

theorem resolveId_reads_dollar_patterns:
  "getVirtualPath ''/srv/$&/node_modules/vite-fix-naiveui-icon/dist''
     = ''/srv/$&/node_modules/vite-fix-naiveui-icon/src/virtual''
   \<and> resolveId (getVirtualPath ''/srv/$&/node_modules/vite-fix-naiveui-icon/dist'')
        ''virtual:fixNaiveuiIcon-path:deepCloneVnode.js''
     = Some (''/srv/virtual:fixNaiveuiIcon-path:/node_modules/vite-fix-naiveui-icon/src/virtual/''
             @ ''deepCloneVnode.js'')
   \<and> resolveId (getVirtualPath ''/srv/app/node_modules/vite-fix-naiveui-icon/dist'')
        ''virtual:fixNaiveuiIcon-path:deepCloneVnode.js''
     = Some ''/srv/app/node_modules/vite-fix-naiveui-icon/src/virtual/deepCloneVnode.js''"
  by code_simp

subsection \<open>C10: the rename and the insertion are found by two patterns\<close>

text \<open>
  Claim C10. The rename looks for the text \<^verbatim>\<open>function replaceable(name, icon)\<close> and the
  insertion for a match of the signature pattern, which allows white space. For the text
  below, with a space before the parenthesis, the literal does not occur, so nothing is
  renamed, and the binding that refers to \<^verbatim>\<open>_icon_\<close> is inserted all the same.
\<close>

theorem rename_and_insertion_are_independent:
  "indexOf ''function replaceable (name, icon) { setup() { } }'' replaceable_literal = None
   \<and> replaceable_transform (config initial_session ''serve'')
       ''function replaceable (name, icon) { setup() { } }''
       ''/app/node_modules/.vite/deps/naive-ui.js''
     = Inr (Some (''function replaceable (name, icon) { setup() {''
                  @ CHR 0x0A # ''  const icon = fixNaiveuiIconCloneVnode(_icon_);'' @ '' } }''))"
  by code_simp

end
